theory Spec2Isabelle
  imports Main "HOL-Library.AList"
begin

section \<open>Paths, as pathlib prints them\<close>

text \<open>
  A path is the string of a \<open>Path\<close> object, written the way \<open>str\<close> prints it:
  \<open>''/home/u/Desktop/a.txt''\<close>. The root directory is the empty string, so that
  \<open>p / n\<close> is \<open>p @ ''/'' @ n\<close> for every directory \<open>p\<close>. The \<open>source\<close> and
  \<open>dest_parent\<close> of the model are the paths after \<open>expanduser().resolve()\<close>.
  The model has no current directory and no symbolic links: a relative path, a
  path below the two-slash root and a path with \<open>..\<close> are keys of their own.
\<close>

type_synonym path = string

definition joinpath :: "path \<Rightarrow> string \<Rightarrow> path" where
  "joinpath p n = p @ ''/'' @ n"

definition path_name :: "path \<Rightarrow> string" where
  "path_name p = rev (takeWhile (\<lambda>c. c \<noteq> CHR ''/'') (rev p))"

definition path_parent :: "path \<Rightarrow> path" where
  "path_parent p = rev (drop 1 (dropWhile (\<lambda>c. c \<noteq> CHR ''/'') (rev p)))"

text \<open>
  \<open>str.rfind\<close>: the index of the last occurrence, \<open>-1\<close> when there is none.
\<close>

definition rfind :: "char \<Rightarrow> string \<Rightarrow> int" where
  "rfind c s =
     (if c \<in> set s then int (length s) - 1 - int (length (takeWhile (\<lambda>x. x \<noteq> c) (rev s)))
      else - 1)"

text \<open>
  \<open>PurePath.suffix\<close> and \<open>PurePath.stem\<close>: with \<open>i = name.rfind('.')\<close>, the suffix
  is \<open>name[i:]\<close> when \<open>0 < i < len(name) - 1\<close> and empty otherwise; the stem is the
  rest of the name.
\<close>

definition path_suffix :: "path \<Rightarrow> string" where
  "path_suffix p =
     (let nm = path_name p; i = rfind (CHR ''.'') nm
      in if 0 < i \<and> i < int (length nm) - 1 then drop (nat i) nm else [])"

definition path_stem :: "path \<Rightarrow> string" where
  "path_stem p =
     (let nm = path_name p; i = rfind (CHR ''.'') nm
      in if 0 < i \<and> i < int (length nm) - 1 then take (nat i) nm else nm)"

definition with_name :: "path \<Rightarrow> string \<Rightarrow> path" where
  "with_name p n = joinpath (path_parent p) n"

text \<open>
  \<open>Path(s)\<close> for a string \<open>s\<close>: the string is split at the slashes, empty
  components and \<open>.\<close> are dropped, and the rest is joined again. A string that
  begins with a slash gives an absolute path; exactly two leading slashes are
  kept as a root of their own (written \<open>''/''\<close> here, as the root \<open>/\<close> is the
  empty string), three and more are one. Any other string gives a relative
  path, \<open>.\<close> when nothing is left. \<open>str_path\<close> is \<open>str\<close> of a path: only the two
  roots are not printed as they are kept.
\<close>

fun split_slash :: "string \<Rightarrow> string list" where
  "split_slash [] = [[]]"
| "split_slash (c # s) =
     (if c = CHR ''/'' then [] # split_slash s
      else (case split_slash s of [] \<Rightarrow> [[c]] | x # xs \<Rightarrow> (c # x) # xs))"

definition components :: "string \<Rightarrow> string list" where
  "components s = filter (\<lambda>c. c \<noteq> [] \<and> c \<noteq> ''.'') (split_slash s)"

definition rooted :: "string list \<Rightarrow> path" where
  "rooted cs = concat (map (\<lambda>c. CHR ''/'' # c) cs)"

definition Path_of :: "string \<Rightarrow> path" where
  "Path_of s =
     (let cs = components s
      in if take 1 s = ''/''
         then (if take 2 s = ''//'' \<and> take 3 s \<noteq> ''///'' then ''/'' else []) @ rooted cs
         else if cs = [] then ''.'' else drop 1 (rooted cs))"

definition str_path :: "path \<Rightarrow> string" where
  "str_path p = (if p = [] then ''/'' else if p = ''/'' then ''//'' else p)"

text \<open>
  The paths that \<open>resolve()\<close> returns and \<open>iterdir\<close> builds below them: absolute,
  with one slash before each component, no component empty or \<open>.\<close>.
\<close>

definition resolved :: "path \<Rightarrow> bool" where
  "resolved p \<longleftrightarrow> rooted (components p) = p"

text \<open>\<open>str(counter)\<close> and the \<open>:02d\<close> format of the month.\<close>

definition digit :: "nat \<Rightarrow> char" where
  "digit d = ''0123456789'' ! d"

fun str_nat :: "nat \<Rightarrow> string" where
  "str_nat n = (if n < 10 then [digit n] else str_nat (n div 10) @ [digit (n mod 10)])"

declare str_nat.simps [simp del]

definition pad2 :: "nat \<Rightarrow> string" where
  "pad2 n = (if n < 10 then CHR ''0'' # str_nat n else str_nat n)"

section \<open>The category table and the classifier\<close>

text \<open>
  \<open>CATEGORIES\<close> is a dict, iterated in insertion order; each value is a set of
  extensions.
\<close>

definition CATEGORIES :: "(string \<times> string list) list" where
  "CATEGORIES =
     [(''Images'', [''.png'', ''.jpg'', ''.jpeg'', ''.gif'', ''.bmp'', ''.svg'', ''.webp'']),
      (''Documents'', [''.pdf'', ''.docx'', ''.doc'', ''.txt'', ''.md'', ''.pptx'', ''.xlsx'', ''.csv'']),
      (''Archives'', [''.zip'', ''.tar'', ''.gz'', ''.rar'', ''.7z'']),
      (''Code'', [''.py'', ''.js'', ''.ts'', ''.java'', ''.c'', ''.cpp'', ''.go'', ''.rb'', ''.rs'']),
      (''Audio'', [''.mp3'', ''.wav'', ''.flac'', ''.m4a'']),
      (''Video'', [''.mp4'', ''.mkv'', ''.mov'', ''.avi'']),
      (''Installers'', [''.exe'', ''.msi'', ''.dmg'', ''.deb'', ''.apk''])]"

definition METADATA_FILE :: string where
  "METADATA_FILE = ''.organize_history.json''"

text \<open>
  A Python \<open>str\<close> is a sequence of Unicode code points. The strings of the model
  (file names, the entries of \<open>CATEGORIES\<close>) are written with the characters
  \<open>U+0000\<close> to \<open>U+00FF\<close>; \<open>code_points\<close> gives their code points.
\<close>

type_synonym unicode = "nat list"

definition code_points :: "string \<Rightarrow> unicode" where
  "code_points s = map of_char s"

text \<open>
  \<open>str.lower\<close>, as far as the tests \<open>ext in exts\<close> can see it. Every entry of
  \<open>CATEGORIES\<close> is written in ASCII, so a lowered string with a code point
  outside ASCII is in none of the sets, and \<open>lower\<close> gives \<open>None\<close> for it. The
  code points whose lower-case form is an ASCII character are the ASCII
  characters themselves (a capital letter gives the small one) and \<open>U+212A\<close>
  KELVIN SIGN, whose lower-case form is \<open>k\<close>. Every other code point gives a
  code point outside ASCII (\<open>U+0130\<close> gives \<open>i\<close> followed by \<open>U+0307\<close>).
\<close>

definition lower_point :: "nat \<Rightarrow> nat option" where
  "lower_point n =
     (if 65 \<le> n \<and> n \<le> 90 then Some (n + 32)
      else if n < 128 then Some n
      else if n = 8490 then Some 107
      else None)"

definition lower :: "unicode \<Rightarrow> unicode option" where
  "lower s = those (map lower_point s)"

text \<open>The \<open>for cat, exts in CATEGORIES.items()\<close> loop of \<open>which_category\<close>.\<close>

fun category_of :: "(string \<times> string list) list \<Rightarrow> unicode \<Rightarrow> string option" where
  "category_of [] ext = None"
| "category_of ((cat, exts) # rest) ext =
     (if ext \<in> set (map code_points exts) then Some cat else category_of rest ext)"

definition which_category :: "unicode \<Rightarrow> string option" where
  "which_category ext =
     (case lower ext of None \<Rightarrow> None | Some l \<Rightarrow> category_of CATEGORIES l)"

text \<open>\<open>folder_name = category if category else "Other"\<close> in \<open>run_organize\<close>.\<close>

definition folder_name :: "string option \<Rightarrow> string" where
  "folder_name category = (case category of Some c \<Rightarrow> c | None \<Rightarrow> ''Other'')"

section \<open>JSON values, files and the file system\<close>

datatype json =
    JNull
  | JBool bool
  | JNum int
  | JStr string
  | JList "json list"
  | JObj "(string \<times> json) list"

text \<open>
  What \<open>read_text\<close> followed by \<open>json.loads\<close> sees in a file: text that is not
  JSON (\<open>json.loads\<close> raises), or the text of a JSON value, which \<open>json.dumps\<close>
  writes and \<open>json.loads\<close> reads back.
\<close>

datatype content = Unparseable string | JsonText json

record regular_file =
  st_size :: nat
  mtime_year :: nat
  mtime_month :: nat
  content :: content

datatype node = Dir | File regular_file

text \<open>
  The file system is an association list from paths to nodes; the order of the
  list is the order in which \<open>iterdir\<close> lists a directory.
\<close>

type_synonym filesystem = "(path \<times> node) list"

text \<open>
  The exceptions that leave a function. Every failure of a file system call
  (\<open>FileNotFoundError\<close>, \<open>FileExistsError\<close>, \<open>NotADirectoryError\<close>,
  \<open>IsADirectoryError\<close>, \<open>shutil.Error\<close>) is an \<open>OSError\<close>; the program catches
  none of them. The state at the moment of the raise is not kept.
\<close>

datatype error =
    SystemExit nat
  | OSError
  | JSONDecodeError
  | AttributeError
  | TypeError

definition node_at :: "filesystem \<Rightarrow> path \<Rightarrow> node option" where
  "node_at fs p = (if p = [] then Some Dir else map_of fs p)"

definition path_exists :: "filesystem \<Rightarrow> path \<Rightarrow> bool" where
  "path_exists fs p = (node_at fs p \<noteq> None)"

definition is_dir :: "filesystem \<Rightarrow> path \<Rightarrow> bool" where
  "is_dir fs p = (node_at fs p = Some Dir)"

text \<open>\<open>Path.iterdir\<close>: the entries directly inside a directory, each once.\<close>

definition iterdir :: "filesystem \<Rightarrow> path \<Rightarrow> path list" where
  "iterdir fs d =
     filter (\<lambda>p. CHR ''/'' \<in> set p \<and> path_parent p = d) (remdups (map fst fs))"

text \<open>
  \<open>Path.mkdir(parents=True, exist_ok=True)\<close>: \<open>os.mkdir\<close> first; an existing
  directory is accepted, an existing file is not; a missing parent is created
  first, by the same call on the parent.
\<close>

function mkdir_parents :: "filesystem \<Rightarrow> path \<Rightarrow> error + filesystem" where
  "mkdir_parents fs p =
     (case node_at fs p of
        Some Dir \<Rightarrow> Inr fs
      | Some (File f) \<Rightarrow> Inl OSError
      | None \<Rightarrow>
          (case node_at fs (path_parent p) of
             Some Dir \<Rightarrow> Inr (AList.update p Dir fs)
           | Some (File f) \<Rightarrow> Inl OSError
           | None \<Rightarrow>
               (case mkdir_parents fs (path_parent p) of
                  Inl e \<Rightarrow> Inl e
                | Inr fs' \<Rightarrow> Inr (AList.update p Dir fs'))))"
  by pat_completeness auto

lemma length_path_parent: "p \<noteq> [] \<Longrightarrow> length (path_parent p) < length p"
proof -
  assume "p \<noteq> []"
  then have pos: "0 < length p"
    by simp
  have le: "length (dropWhile (\<lambda>c. c \<noteq> CHR ''/'') (rev p)) \<le> length p"
    using length_dropWhile_le [of "\<lambda>c. c \<noteq> CHR ''/''" "rev p"] by simp
  have "length (path_parent p) = length (dropWhile (\<lambda>c. c \<noteq> CHR ''/'') (rev p)) - 1"
    by (simp add: path_parent_def)
  with pos le show ?thesis
    by arith
qed

termination mkdir_parents
proof (relation "measure (\<lambda>(fs, p). length p)")
  show "wf (measure (\<lambda>(fs, p). length p))"
    by simp
next
  fix fs :: filesystem and p :: path
  assume "node_at fs p = None"
  then have "p \<noteq> []"
    by (auto simp: node_at_def)
  then show "((fs, path_parent p), (fs, p)) \<in> measure (\<lambda>(fs, p). length p)"
    by (simp add: length_path_parent)
qed

declare mkdir_parents.simps [simp del]

text \<open>
  The candidate names of \<open>safe_move\<close>:
  \<open>dest.with_name(f"{dest.stem}_{counter}{dest.suffix}")\<close>.
\<close>

definition numbered :: "path \<Rightarrow> nat \<Rightarrow> path" where
  "numbered dest counter =
     with_name dest (path_stem dest @ ''_'' @ str_nat counter @ path_suffix dest)"

text \<open>
  The \<open>while final.exists()\<close> loop of \<open>safe_move\<close>. It ends because different
  counters give different names and a file system holds finitely many paths.
\<close>

lemma str_nat_not_Nil: "str_nat n \<noteq> []"
  by (subst str_nat.simps) simp

lemma digit_inj: "a < 10 \<Longrightarrow> b < 10 \<Longrightarrow> digit a = digit b \<Longrightarrow> a = b"
proof -
  assume a: "a < 10" and b: "b < 10" and e: "digit a = digit b"
  have d: "distinct ''0123456789''"
    by simp
  have la: "a < length ''0123456789''"
    using a by simp
  have lb: "b < length ''0123456789''"
    using b by simp
  from e have "''0123456789'' ! a = ''0123456789'' ! b"
    by (simp only: digit_def)
  with d la lb show "a = b"
    by (simp only: nth_eq_iff_index_eq)
qed

lemma str_nat_inj: "str_nat n = str_nat m \<Longrightarrow> n = m"
proof (induction n arbitrary: m rule: str_nat.induct)
  case (1 n)
  have small: "k < 10 \<Longrightarrow> str_nat k = [digit k]" for k
    by (subst str_nat.simps) simp
  have large: "\<not> k < 10 \<Longrightarrow> str_nat k = str_nat (k div 10) @ [digit (k mod 10)]" for k
    by (subst str_nat.simps) simp
  show ?case
  proof (cases "n < 10")
    case n_small: True
    show ?thesis
    proof (cases "m < 10")
      case True
      with n_small "1.prems" have "digit n = digit m"
        by (simp add: small)
      with n_small True show ?thesis
        by (rule digit_inj)
    next
      case False
      with n_small "1.prems" have "str_nat (m div 10) = []"
        by (simp add: small large)
      then show ?thesis
        by (simp add: str_nat_not_Nil)
    qed
  next
    case n_large: False
    show ?thesis
    proof (cases "m < 10")
      case True
      with n_large "1.prems" have "str_nat (n div 10) = []"
        by (simp add: small large)
      then show ?thesis
        by (simp add: str_nat_not_Nil)
    next
      case False
      with n_large "1.prems" have heads: "str_nat (n div 10) = str_nat (m div 10)"
        and lasts: "digit (n mod 10) = digit (m mod 10)"
        by (simp_all add: large)
      from "1.IH" [OF n_large heads] have q: "n div 10 = m div 10" .
      have "n mod 10 < 10" and "m mod 10 < 10"
        by simp_all
      with lasts have r: "n mod 10 = m mod 10"
        by (auto intro: digit_inj)
      from q r show ?thesis
        by (metis div_mult_mod_eq)
    qed
  qed
qed

lemma numbered_inj: "numbered dest a = numbered dest b \<Longrightarrow> a = b"
  by (simp add: numbered_def with_name_def joinpath_def str_nat_inj)

lemma numbered_not_root: "numbered dest k \<noteq> []"
  by (simp add: numbered_def with_name_def joinpath_def)

lemma finite_numbered: "finite {k. path_exists fs (numbered dest k)}"
proof -
  have "{k. path_exists fs (numbered dest k)} \<subseteq> numbered dest -` (fst ` set fs)"
    by (auto simp: path_exists_def node_at_def numbered_not_root map_of_eq_None_iff)
  moreover have "finite (numbered dest -` (fst ` set fs))"
    by (rule finite_vimageI) (auto simp: inj_on_def dest: numbered_inj)
  ultimately show ?thesis
    by (rule finite_subset)
qed

function find_free :: "filesystem \<Rightarrow> path \<Rightarrow> path \<Rightarrow> nat \<Rightarrow> path" where
  "find_free fs dest final counter =
     (if path_exists fs final then find_free fs dest (numbered dest counter) (counter + 1)
      else final)"
  by pat_completeness auto

termination find_free
proof (relation "measure (\<lambda>(fs, dest, final, counter).
    card {k. counter \<le> k \<and> path_exists fs (numbered dest k)}
      + (if path_exists fs final then 1 else 0))")
  show "wf (measure (\<lambda>(fs, dest, final, counter).
    card {k. counter \<le> k \<and> path_exists fs (numbered dest k)}
      + (if path_exists fs final then 1 else 0)))"
    by simp
next
  fix fs :: filesystem and dest final :: path and counter :: nat
  assume ex: "path_exists fs final"
  let ?A = "{k. counter + 1 \<le> k \<and> path_exists fs (numbered dest k)}"
  let ?B = "{k. counter \<le> k \<and> path_exists fs (numbered dest k)}"
  have fin: "finite ?A"
    by (rule finite_subset [OF _ finite_numbered [of fs dest]]) auto
  have "card ?A + (if path_exists fs (numbered dest counter) then 1 else 0) = card ?B"
  proof (cases "path_exists fs (numbered dest counter)")
    case True
    then have "?B = insert counter ?A"
      by (auto simp: le_Suc_eq)
    moreover have "counter \<notin> ?A"
      by simp
    ultimately show ?thesis
      using fin True by simp
  next
    case False
    then have "?B = ?A"
      by (auto simp: Suc_le_eq le_less)
    with False show ?thesis
      by simp
  qed
  with ex show "((fs, dest, numbered dest counter, counter + 1), (fs, dest, final, counter))
      \<in> measure (\<lambda>(fs, dest, final, counter).
        card {k. counter \<le> k \<and> path_exists fs (numbered dest k)}
          + (if path_exists fs final then 1 else 0))"
    by simp
qed

declare find_free.simps [simp del]

text \<open>The paths the loop tries, in order: \<open>dest\<close> itself, then the numbered names.\<close>

definition candidate :: "path \<Rightarrow> nat \<Rightarrow> path" where
  "candidate dest n = (if n = 0 then dest else numbered dest n)"

text \<open>
  \<open>shutil.move(src, dst)\<close>. A destination that is a directory receives the source
  under the source's name, unless that name is taken there; otherwise the source
  is renamed to \<open>dst\<close>, replacing a file that is there (the POSIX \<open>rename\<close>). A
  directory is moved with everything below it, and never into itself.
\<close>

definition inside :: "path \<Rightarrow> path \<Rightarrow> bool" where
  "inside src p = (p = src \<or> take (length src + 1) p = src @ ''/'')"

definition rename_tree :: "path \<Rightarrow> path \<Rightarrow> filesystem \<Rightarrow> filesystem" where
  "rename_tree src dst fs =
     map (\<lambda>(p, n). (if inside src p then dst @ drop (length src) p else p, n)) fs"

definition shutil_move :: "filesystem \<Rightarrow> path \<Rightarrow> path \<Rightarrow> error + filesystem" where
  "shutil_move fs src dst =
     (case node_at fs src of
        None \<Rightarrow> Inl OSError
      | Some n \<Rightarrow>
          if is_dir fs dst \<and> src = dst then Inr fs
          else
            let real_dst = (if is_dir fs dst then joinpath dst (path_name src) else dst)
            in if is_dir fs dst \<and> path_exists fs real_dst then Inl OSError
               else
                 (case n of
                    File f \<Rightarrow>
                      if is_dir fs (path_parent real_dst)
                      then Inr (AList.update real_dst (File f) (AList.delete src fs))
                      else Inl OSError
                  | Dir \<Rightarrow>
                      if path_exists fs real_dst \<or> inside src real_dst then Inl OSError
                      else
                        (case mkdir_parents fs (path_parent real_dst) of
                           Inl e \<Rightarrow> Inl e
                         | Inr fs1 \<Rightarrow> Inr (rename_tree src real_dst fs1))))"

section \<open>The program state and the logger\<close>

datatype level = DEBUG | INFO | WARNING | ERROR

record world =
  files :: filesystem
  log :: "(level \<times> string) list"

text \<open>The logger's level is \<open>INFO\<close>: a debug line is not written.\<close>

definition emit :: "level \<Rightarrow> string \<Rightarrow> world \<Rightarrow> world" where
  "emit lvl msg w = (if lvl = DEBUG then w else w\<lparr>log := log w @ [(lvl, msg)]\<rparr>)"

text \<open>
  What the program reads from outside the file system: the clock
  (\<open>datetime.utcnow().isoformat()\<close>, and the modification time a written file
  gets) and the length of the text \<open>json.dumps(o, indent=2)\<close> writes.
\<close>

record env =
  utcnow :: string
  clock_year :: nat
  clock_month :: nat
  dumps_size :: "json \<Rightarrow> nat"

text \<open>\<open>Path.write_text(json.dumps(o, indent=2))\<close>.\<close>

definition write_text :: "env \<Rightarrow> filesystem \<Rightarrow> path \<Rightarrow> json \<Rightarrow> error + filesystem" where
  "write_text e fs p j =
     (if is_dir fs p \<or> \<not> is_dir fs (path_parent p) then Inl OSError
      else Inr (AList.update p
             (File \<lparr>st_size = dumps_size e j, mtime_year = clock_year e,
                    mtime_month = clock_month e, content = JsonText j\<rparr>) fs))"

section \<open>safe\_move and run\_organize\<close>

definition safe_move :: "world \<Rightarrow> path \<Rightarrow> path \<Rightarrow> bool \<Rightarrow> error + (path option \<times> world)" where
  "safe_move w src dest dry_run =
     (case mkdir_parents (files w) (path_parent dest) of
        Inl e \<Rightarrow> Inl e
      | Inr fs1 \<Rightarrow>
          if dry_run
          then Inr (None, emit INFO (''DRY: would move '' @ src @ '' -> '' @ dest) (w\<lparr>files := fs1\<rparr>))
          else
            let final = find_free fs1 dest dest 1
            in (case shutil_move fs1 src final of
                  Inl e \<Rightarrow> Inl e
                | Inr fs2 \<Rightarrow>
                    Inr (Some final,
                         emit INFO (''Moved '' @ path_name src @ '' -> '' @ final) (w\<lparr>files := fs2\<rparr>))))"

text \<open>The two shapes of a move record.\<close>

definition move_record :: "path \<Rightarrow> path \<Rightarrow> json" where
  "move_record frm to = JObj [(''from'', JStr frm), (''to'', JStr to)]"

definition dry_record :: "path \<Rightarrow> path \<Rightarrow> json" where
  "dry_record frm to = JObj [(''from'', JStr frm), (''to'', JStr to), (''dry_run'', JBool True)]"

text \<open>
  The target directory of a file (lines 107 to 113):
  \<open><dest_parent>/<category>\<close>, with \<open>/<YYYY>-<MM>\<close> of the file's modification
  time when \<open>by_date\<close> is set.
\<close>

definition target_dir :: "path \<Rightarrow> bool \<Rightarrow> path \<Rightarrow> regular_file \<Rightarrow> path" where
  "target_dir dest_parent by_date item f =
     (let category = which_category (code_points (path_suffix item));
          target_parent = joinpath dest_parent (folder_name category)
      in if by_date
         then joinpath target_parent (str_nat (mtime_year f) @ ''-'' @ pad2 (mtime_month f))
         else target_parent)"

text \<open>
  The body of the \<open>for item in source.iterdir()\<close> loop, on the list of moves and
  the state. The three \<open>continue\<close> statements of the directory branch are kept
  as they stand in the source.
\<close>

definition organize_item ::
  "path \<Rightarrow> bool \<Rightarrow> bool \<Rightarrow> int \<Rightarrow> json list \<times> world \<Rightarrow> path \<Rightarrow> error + (json list \<times> world)"
where
  "organize_item dest_parent dry_run by_date min_size_kb st item =
     (case st of (moves, w) \<Rightarrow>
       (case node_at (files w) item of
          None \<Rightarrow> Inl OSError
        | Some Dir \<Rightarrow>
            if path_name item \<in> set (map fst CATEGORIES)
            then Inr (moves, emit DEBUG (''Skipping category folder '' @ path_name item) w)
            else if path_name item = METADATA_FILE then Inr (moves, w)
            else Inr (moves, w)
        | Some (File f) \<Rightarrow>
            if int (st_size f) < min_size_kb * 1024
            then Inr (moves, emit DEBUG (''Skipping small file '' @ path_name item) w)
            else
              let target_parent = target_dir dest_parent by_date item f
              in (case mkdir_parents (files w) target_parent of
                    Inl e \<Rightarrow> Inl e
                  | Inr fs1 \<Rightarrow>
                      let target = joinpath target_parent (path_name item)
                      in (case safe_move (w\<lparr>files := fs1\<rparr>) item target dry_run of
                            Inl e \<Rightarrow> Inl e
                          | Inr (Some final, w') \<Rightarrow> Inr (moves @ [move_record item final], w')
                          | Inr (None, w') \<Rightarrow> Inr (moves @ [dry_record item target], w')))))"

fun organize_loop ::
  "path \<Rightarrow> bool \<Rightarrow> bool \<Rightarrow> int \<Rightarrow> json list \<times> world \<Rightarrow> path list \<Rightarrow> error + (json list \<times> world)"
where
  "organize_loop dest_parent dry_run by_date min_size_kb st [] = Inr st"
| "organize_loop dest_parent dry_run by_date min_size_kb st (item # items) =
     (case organize_item dest_parent dry_run by_date min_size_kb st item of
        Inl e \<Rightarrow> Inl e
      | Inr st' \<Rightarrow> organize_loop dest_parent dry_run by_date min_size_kb st' items)"

text \<open>
  The write of the history file at the end of a live run (lines 130 to 143):
  \<open>read_text\<close> and \<open>json.loads\<close> stand inside \<open>try\<close>, so a history that is a
  directory or is not JSON gives the empty list.
\<close>

definition history_record :: "env \<Rightarrow> json list \<Rightarrow> json" where
  "history_record e moves = JObj [(''timestamp'', JStr (utcnow e)), (''moves'', JList moves)]"

definition append_run :: "env \<Rightarrow> path \<Rightarrow> json list \<Rightarrow> world \<Rightarrow> error + world" where
  "append_run e source moves w =
     (let history_path = joinpath source METADATA_FILE;
          history = history_record e moves;
          o_new =
            (if path_exists (files w) history_path
             then
               (let o_old =
                      (case node_at (files w) history_path of
                         Some (File f) \<Rightarrow>
                           (case content f of JsonText j \<Rightarrow> j | Unparseable t \<Rightarrow> JList [])
                       | _ \<Rightarrow> JList [])
                in case o_old of JList xs \<Rightarrow> JList (xs @ [history]) | _ \<Rightarrow> JList [o_old, history])
             else JList [history])
      in case write_text e (files w) history_path o_new of
           Inl err \<Rightarrow> Inl err
         | Inr fs' \<Rightarrow> Inr (emit INFO (''Saved history to '' @ history_path) (w\<lparr>files := fs'\<rparr>)))"

definition run_organize ::
  "env \<Rightarrow> path \<Rightarrow> path option \<Rightarrow> bool \<Rightarrow> bool \<Rightarrow> int \<Rightarrow> world \<Rightarrow> error + world"
where
  "run_organize e source dest_parent dry_run by_date min_size_kb w =
     (let dest_parent = (case dest_parent of Some d \<Rightarrow> d | None \<Rightarrow> source)
      in if \<not> is_dir (files w) source then Inl (SystemExit 1)
         else
           (case organize_loop dest_parent dry_run by_date min_size_kb ([], w)
                   (iterdir (files w) source) of
              Inl err \<Rightarrow> Inl err
            | Inr (moves, w1) \<Rightarrow>
                if dry_run then Inr (emit INFO ''Dry-run completed. No changes saved.'' w1)
                else append_run e source moves w1))"

section \<open>run\_undo\<close>

text \<open>
  \<open>reversed(moves)\<close>: a list is walked from its end; a string gives its
  characters and a dict its keys, from the end; nothing else can be reversed.
\<close>

definition reversed :: "json \<Rightarrow> error + json list" where
  "reversed j =
     (case j of
        JList ms \<Rightarrow> Inr (rev ms)
      | JStr s \<Rightarrow> Inr (rev (map (\<lambda>c. JStr [c]) s))
      | JObj kvs \<Rightarrow> Inr (rev (map (\<lambda>kv. JStr (fst kv)) kvs))
      | _ \<Rightarrow> Inl TypeError)"

text \<open>
  The body of the \<open>for m in reversed(moves)\<close> loop: \<open>m.get\<close> needs a dict, and
  \<open>Path(...)\<close> a string, which it normalises.
\<close>

definition restore :: "world \<Rightarrow> json \<Rightarrow> error + world" where
  "restore w m =
     (case m of
        JObj kvs \<Rightarrow>
          (case map_of kvs ''to'' of
             Some (JStr recorded_to) \<Rightarrow>
               (case map_of kvs ''from'' of
                  Some (JStr recorded_from) \<Rightarrow>
                    let frm = Path_of recorded_to; to = Path_of recorded_from
                    in if path_exists (files w) frm
                       then
                         (case mkdir_parents (files w) (path_parent to) of
                            Inl e \<Rightarrow> Inl e
                          | Inr fs1 \<Rightarrow>
                              (case shutil_move fs1 frm to of
                                 Inl e \<Rightarrow> Inl e
                               | Inr fs2 \<Rightarrow>
                                   Inr (emit INFO
                                          (''Restored '' @ path_name frm @ '' -> '' @ str_path to)
                                          (w\<lparr>files := fs2\<rparr>))))
                       else Inr (emit WARNING
                                   (''Expected file to restore not found: '' @ str_path frm) w)
                | _ \<Rightarrow> Inl TypeError)
           | _ \<Rightarrow> Inl TypeError)
      | _ \<Rightarrow> Inl AttributeError)"

fun restore_all :: "world \<Rightarrow> json list \<Rightarrow> error + world" where
  "restore_all w [] = Inr w"
| "restore_all w (m # ms) =
     (case restore w m of Inl e \<Rightarrow> Inl e | Inr w' \<Rightarrow> restore_all w' ms)"

definition run_undo :: "env \<Rightarrow> path \<Rightarrow> world \<Rightarrow> error + world" where
  "run_undo e source w =
     (let history_path = joinpath source METADATA_FILE
      in if \<not> path_exists (files w) history_path
         then Inr (emit ERROR ''No history file found to undo.'' w)
         else
           (case node_at (files w) history_path of
              Some (File f) \<Rightarrow>
                (case content f of
                   Unparseable t \<Rightarrow> Inl JSONDecodeError
                 | JsonText (JList data) \<Rightarrow>
                     if data = [] then Inr (emit ERROR ''History file corrupt or empty.'' w)
                     else
                       (case last data of
                          JObj kvs \<Rightarrow>
                            (case reversed (case map_of kvs ''moves'' of
                                              Some ms \<Rightarrow> ms
                                            | None \<Rightarrow> JList []) of
                               Inl err \<Rightarrow> Inl err
                             | Inr ms \<Rightarrow>
                                 (case restore_all w ms of
                                    Inl err \<Rightarrow> Inl err
                                  | Inr w1 \<Rightarrow>
                                      (case write_text e (files w1) history_path
                                              (JList (butlast data)) of
                                         Inl err \<Rightarrow> Inl err
                                       | Inr fs' \<Rightarrow>
                                           Inr (emit INFO ''Undo complete.'' (w1\<lparr>files := fs'\<rparr>)))))
                        | _ \<Rightarrow> Inl AttributeError)
                 | JsonText _ \<Rightarrow> Inr (emit ERROR ''History file corrupt or empty.'' w))
            | _ \<Rightarrow> Inl OSError))"

section \<open>Example states\<close>

text \<open>
  A clock, and a desktop directory \<open>/d\<close> in the states the claims are tried on.
\<close>

definition clock :: env where
  "clock = \<lparr>utcnow = ''2024-03-05T10:00:00'', clock_year = 2024, clock_month = 3,
             dumps_size = (\<lambda>j. 64)\<rparr>"

definition plain_file :: "nat \<Rightarrow> string \<Rightarrow> node" where
  "plain_file n t = File \<lparr>st_size = n, mtime_year = 2024, mtime_month = 3, content = Unparseable t\<rparr>"

definition json_file :: "nat \<Rightarrow> json \<Rightarrow> node" where
  "json_file n j = File \<lparr>st_size = n, mtime_year = 2024, mtime_month = 2, content = JsonText j\<rparr>"

definition earlier_run :: json where
  "earlier_run =
     JObj [(''timestamp'', JStr ''2024-02-01T09:00:00''),
           (''moves'', JList [move_record ''/d/old.txt'' ''/d/Documents/old.txt''])]"

text \<open>One file on the desktop, nothing else.\<close>

definition desk_fresh :: world where
  "desk_fresh = \<lparr>files = [(''/d'', Dir), (''/d/a.txt'', plain_file 10 ''notes'')], log = []\<rparr>"

text \<open>The desktop after an earlier run: its history file holds that run's record.\<close>

definition desk_second_run :: world where
  "desk_second_run =
     \<lparr>files = [(''/d'', Dir), (''/d/Documents'', Dir),
                (''/d/Documents/old.txt'', plain_file 5 ''old''),
                (''/d/a.txt'', plain_file 10 ''notes''),
                (''/d/.organize_history.json'', json_file 120 (JList [earlier_run]))],
      log = []\<rparr>"

text \<open>The same desktop with a history file that is not JSON.\<close>

definition desk_garbled :: world where
  "desk_garbled =
     \<lparr>files = [(''/d'', Dir), (''/d/Documents'', Dir),
                (''/d/Documents/old.txt'', plain_file 5 ''old''),
                (''/d/a.txt'', plain_file 2048 ''notes''),
                (''/d/.organize_history.json'', plain_file 9 ''not json!'')],
      log = []\<rparr>"

text \<open>The same desktop with a history file in the single-record shape.\<close>

definition desk_legacy :: world where
  "desk_legacy =
     \<lparr>files = [(''/d'', Dir), (''/d/Documents'', Dir),
                (''/d/Documents/old.txt'', plain_file 5 ''old''),
                (''/d/a.txt'', plain_file 2048 ''notes''),
                (''/d/.organize_history.json'', json_file 100 earlier_run)],
      log = []\<rparr>"

text \<open>Two files named \<open>b.txt\<close> and \<open>b_1.txt\<close> are in \<open>Documents\<close> already.\<close>

definition desk_collision :: world where
  "desk_collision =
     \<lparr>files = [(''/d'', Dir), (''/d/b.txt'', plain_file 10 ''new''),
                (''/d/Documents'', Dir),
                (''/d/Documents/b.txt'', plain_file 7 ''first''),
                (''/d/Documents/b_1.txt'', plain_file 8 ''second'')],
      log = []\<rparr>"

text \<open>
  The state a live run with the default arguments leaves behind when it starts
  from \<open>desk_second_run\<close>.
\<close>

definition desk_after_second_run :: world where
  "desk_after_second_run =
     \<lparr>files = [(''/d'', Dir), (''/d/Documents'', Dir),
                (''/d/Documents/old.txt'', plain_file 5 ''old''),
                (''/d/Documents/a.txt'', plain_file 10 ''notes''),
                (''/d/Other'', Dir),
                (''/d/Other/.organize_history.json'', json_file 120 (JList [earlier_run])),
                (''/d/.organize_history.json'',
                 File \<lparr>st_size = 64, mtime_year = 2024, mtime_month = 3,
                       content = JsonText (JList [history_record clock
                         [move_record ''/d/a.txt'' ''/d/Documents/a.txt'',
                          move_record ''/d/.organize_history.json''
                            ''/d/Other/.organize_history.json'']])\<rparr>)],
      log = [(INFO, ''Moved a.txt -> /d/Documents/a.txt''),
             (INFO, ''Moved .organize_history.json -> /d/Other/.organize_history.json''),
             (INFO, ''Saved history to /d/.organize_history.json'')]\<rparr>"

text \<open>
  The states in which the loop of a live run with \<open>min_size_kb = 1\<close> ends on
  \<open>desk_garbled\<close> and on \<open>desk_legacy\<close>: the small history file is skipped.
\<close>

definition desk_garbled_sorted :: world where
  "desk_garbled_sorted =
     \<lparr>files = [(''/d'', Dir), (''/d/Documents'', Dir),
                (''/d/Documents/old.txt'', plain_file 5 ''old''),
                (''/d/.organize_history.json'', plain_file 9 ''not json!''),
                (''/d/Documents/a.txt'', plain_file 2048 ''notes'')],
      log = [(INFO, ''Moved a.txt -> /d/Documents/a.txt'')]\<rparr>"

definition desk_legacy_sorted :: world where
  "desk_legacy_sorted =
     \<lparr>files = [(''/d'', Dir), (''/d/Documents'', Dir),
                (''/d/Documents/old.txt'', plain_file 5 ''old''),
                (''/d/.organize_history.json'', json_file 100 earlier_run),
                (''/d/Documents/a.txt'', plain_file 2048 ''notes'')],
      log = [(INFO, ''Moved a.txt -> /d/Documents/a.txt'')]\<rparr>"



text \<open>
  \<open>a.txt\<close> has been moved to \<open>Documents\<close>, and a new file of the same name has
  been put on the desktop since.
\<close>

definition single_run :: json where
  "single_run =
     JObj [(''timestamp'', JStr ''2024-03-05T10:00:00''),
           (''moves'', JList [move_record ''/d/a.txt'' ''/d/Documents/a.txt''])]"

definition desk_refilled :: world where
  "desk_refilled =
     \<lparr>files = [(''/d'', Dir), (''/d/Documents'', Dir),
                (''/d/Documents/a.txt'', plain_file 10 ''notes''),
                (''/d/a.txt'', plain_file 3 ''new''),
                (''/d/.organize_history.json'', json_file 200 (JList [earlier_run, single_run]))],
      log = []\<rparr>"




text \<open>The state a live run with the default arguments leaves behind on \<open>desk_fresh\<close>.\<close>

definition desk_fresh_sorted :: world where
  "desk_fresh_sorted =
     \<lparr>files = [(''/d'', Dir), (''/d/Documents'', Dir),
                (''/d/Documents/a.txt'', plain_file 10 ''notes''),
                (''/d/.organize_history.json'',
                 File \<lparr>st_size = 64, mtime_year = 2024, mtime_month = 3,
                       content = JsonText (JList [history_record clock
                         [move_record ''/d/a.txt'' ''/d/Documents/a.txt'']])\<rparr>)],
      log = [(INFO, ''Moved a.txt -> /d/Documents/a.txt''),
             (INFO, ''Saved history to /d/.organize_history.json'')]\<rparr>"

text \<open>
  A desktop with a regular file whose name is that of a category folder, listed
  before \<open>a.txt\<close>, and the state a live run leaves behind on it.
\<close>

definition desk_named :: world where
  "desk_named =
     \<lparr>files = [(''/d'', Dir), (''/d/Documents'', plain_file 4 ''list''),
                (''/d/a.txt'', plain_file 10 ''notes'')],
      log = []\<rparr>"

definition desk_named_sorted :: world where
  "desk_named_sorted =
     \<lparr>files = [(''/d'', Dir), (''/d/Other'', Dir),
                (''/d/Other/Documents'', plain_file 4 ''list''),
                (''/d/Documents'', Dir),
                (''/d/Documents/a.txt'', plain_file 10 ''notes''),
                (''/d/.organize_history.json'',
                 File \<lparr>st_size = 64, mtime_year = 2024, mtime_month = 3,
                       content = JsonText (JList [history_record clock
                         [move_record ''/d/Documents'' ''/d/Other/Documents'',
                          move_record ''/d/a.txt'' ''/d/Documents/a.txt'']])\<rparr>)],
      log = [(INFO, ''Moved Documents -> /d/Other/Documents''),
             (INFO, ''Moved a.txt -> /d/Documents/a.txt''),
             (INFO, ''Saved history to /d/.organize_history.json'')]\<rparr>"

section \<open>Vocabulary of the proofs\<close>

text \<open>
  Modelled from the spec: an extension, compared case-insensitively, is an
  entry of the category table when it has the entry's length and, place by
  place, the entry's character, or the capital letter of it, or, for \<open>k\<close>,
  \<open>U+212A\<close> KELVIN SIGN, the one other code point whose lower-case form is an
  ASCII letter. The entries of the table are written with \<open>plain\<close> characters:
  ASCII, and no capital letters.
\<close>

definition same_letter :: "nat \<Rightarrow> char \<Rightarrow> bool" where
  "same_letter n c \<longleftrightarrow>
     n = of_char c
     \<or> (97 \<le> (of_char c :: nat) \<and> (of_char c :: nat) \<le> 122 \<and> n + 32 = of_char c)
     \<or> (c = CHR ''k'' \<and> n = 8490)"

definition caseless_match :: "unicode \<Rightarrow> string \<Rightarrow> bool" where
  "caseless_match ext e = list_all2 same_letter ext e"

definition plain :: "char \<Rightarrow> bool" where
  "plain c \<longleftrightarrow>
     (of_char c :: nat) < 128 \<and> \<not> (65 \<le> (of_char c :: nat) \<and> (of_char c :: nat) \<le> 90)"

text \<open>What one pass of the loop body can do to the state.\<close>

definition quiet_step :: "world \<Rightarrow> world \<Rightarrow> bool" where
  "quiet_step w w' \<longleftrightarrow>
     (\<forall>d. is_dir (files w) d \<longrightarrow> is_dir (files w') d)
     \<and> (\<exists>extra. log w' = log w @ extra \<and> (\<forall>entry \<in> set extra. fst entry = INFO))"





text \<open>
  The rest of an undo from the state \<open>v\<close>: the records \<open>ms\<close> are replayed in the
  order of the list, then the history file is written with the list \<open>rs\<close>.
\<close>

definition undo_from :: "env \<Rightarrow> path \<Rightarrow> json list \<Rightarrow> json list \<Rightarrow> world \<Rightarrow> error + world" where
  "undo_from e source rs ms v =
     (case restore_all v ms of
        Inl err \<Rightarrow> Inl err
      | Inr w1 \<Rightarrow>
          (case write_text e (files w1) (joinpath source METADATA_FILE) (JList rs) of
             Inl err \<Rightarrow> Inl err
           | Inr fs' \<Rightarrow> Inr (emit INFO ''Undo complete.'' (w1\<lparr>files := fs'\<rparr>))))"

text \<open>
  \<open>same_but_dirs hp s t\<close>: away from the history path, \<open>t\<close> holds what \<open>s\<close>
  holds, and directories where \<open>s\<close> holds nothing.
\<close>

definition same_but_dirs :: "path \<Rightarrow> filesystem \<Rightarrow> filesystem \<Rightarrow> bool" where
  "same_but_dirs hp s t \<longleftrightarrow>
     (\<forall>p. p \<noteq> hp \<longrightarrow>
        node_at t p = node_at s p \<or> (node_at s p = None \<and> node_at t p = Some Dir))"

text \<open>The list a history file stands for when a live run appends to it.\<close>

definition history_before :: "node option \<Rightarrow> json list" where
  "history_before nd =
     (case nd of
        Some (File f) \<Rightarrow>
          (case content f of
             JsonText (JList xs) \<Rightarrow> xs
           | JsonText j \<Rightarrow> [j]
           | Unparseable t \<Rightarrow> [])
      | _ \<Rightarrow> [])"

section \<open>Facts about paths and the file system\<close>

lemma path_name_no_slash: "CHR ''/'' \<notin> set (path_name p)"
proof -
  have "\<forall>c \<in> set (takeWhile (\<lambda>c. c \<noteq> CHR ''/'') (rev p)). c \<noteq> CHR ''/''"
    by (auto dest: set_takeWhileD)
  then show ?thesis
    by (auto simp: path_name_def)
qed

lemma path_parent_joinpath: "CHR ''/'' \<notin> set n \<Longrightarrow> path_parent (joinpath p n) = p"
proof -
  assume "CHR ''/'' \<notin> set n"
  then have "dropWhile (\<lambda>c. c \<noteq> CHR ''/'') (rev n @ CHR ''/'' # rev p) = CHR ''/'' # rev p"
    by (subst dropWhile_append2) auto
  then show ?thesis
    by (simp add: path_parent_def joinpath_def)
qed

lemma path_name_joinpath: "CHR ''/'' \<notin> set n \<Longrightarrow> path_name (joinpath p n) = n"
proof -
  assume "CHR ''/'' \<notin> set n"
  then have "takeWhile (\<lambda>c. c \<noteq> CHR ''/'') (rev n @ CHR ''/'' # rev p) = rev n"
    by (subst takeWhile_append2) auto
  then show ?thesis
    by (simp add: path_name_def joinpath_def)
qed

lemma joinpath_parent_name: "CHR ''/'' \<in> set p \<Longrightarrow> joinpath (path_parent p) (path_name p) = p"
proof -
  assume "CHR ''/'' \<in> set p"
  let ?P = "\<lambda>c. c \<noteq> CHR ''/''"
  have "dropWhile ?P (rev p) \<noteq> []"
    using \<open>CHR ''/'' \<in> set p\<close> by (auto simp: dropWhile_eq_Nil_conv)
  moreover have "\<not> ?P (hd (dropWhile ?P (rev p)))" if "dropWhile ?P (rev p) \<noteq> []"
    using that hd_dropWhile by blast
  ultimately obtain r where r: "dropWhile ?P (rev p) = CHR ''/'' # r"
    by (cases "dropWhile ?P (rev p)") auto
  have "rev p = takeWhile ?P (rev p) @ dropWhile ?P (rev p)"
    by simp
  then have "p = rev (dropWhile ?P (rev p)) @ rev (takeWhile ?P (rev p))"
    by (metis rev_append rev_rev_ident)
  with r show ?thesis
    by (simp add: joinpath_def path_parent_def path_name_def)
qed

lemma split_slash_not_Nil: "split_slash s \<noteq> []"
  by (induction s) (auto split: list.splits)

lemma split_slash_append:
  "split_slash (a @ CHR ''/'' # b) = split_slash a @ split_slash b"
proof (induction a)
  case Nil
  show ?case by simp
next
  case (Cons c a)
  obtain x xs where "split_slash a = x # xs"
    using split_slash_not_Nil [of a] by (cases "split_slash a") auto
  with Cons show ?case
    by simp
qed

lemma split_slash_plain: "CHR ''/'' \<notin> set c \<Longrightarrow> split_slash c = [c]"
  by (induction c) auto

lemma split_slash_no_slash: "x \<in> set (split_slash s) \<Longrightarrow> CHR ''/'' \<notin> set x"
proof (induction s arbitrary: x)
  case Nil
  then show ?case by simp
next
  case (Cons c s)
  obtain y ys where ys: "split_slash s = y # ys"
    using split_slash_not_Nil [of s] by (cases "split_slash s") auto
  with Cons show ?case
    by (auto split: if_splits)
qed

lemma components_joinpath:
  assumes "CHR ''/'' \<notin> set n" "n \<noteq> []" "n \<noteq> ''.''"
  shows "components (joinpath p n) = components p @ [n]"
  using assms by (simp add: components_def joinpath_def split_slash_append split_slash_plain)

lemma rooted_snoc: "rooted (cs @ [n]) = joinpath (rooted cs) n"
  by (simp add: rooted_def joinpath_def)

lemma resolved_joinpath:
  assumes "resolved p" "CHR ''/'' \<notin> set n" "n \<noteq> []" "n \<noteq> ''.''"
  shows "resolved (joinpath p n)"
  using assms by (simp add: resolved_def components_joinpath rooted_snoc)

lemma resolved_root: "resolved []"
  by (simp add: resolved_def components_def rooted_def)

lemma components_valid: "c \<in> set (components s) \<Longrightarrow> c \<noteq> [] \<and> c \<noteq> ''.'' \<and> CHR ''/'' \<notin> set c"
  by (auto simp: components_def dest: split_slash_no_slash)

lemma resolved_shape:
  assumes r: "resolved p" and ne: "p \<noteq> []"
  obtains q n where "p = joinpath q n" "resolved q" "n \<noteq> []" "n \<noteq> ''.''" "CHR ''/'' \<notin> set n"
proof -
  from r ne have "components p \<noteq> []"
    by (auto simp: resolved_def rooted_def)
  then obtain cs n where cs: "components p = cs @ [n]"
    by (cases "components p" rule: rev_cases) auto
  then have n: "n \<noteq> [] \<and> n \<noteq> ''.'' \<and> CHR ''/'' \<notin> set n"
    using components_valid [of n p] by simp
  from r cs have p: "p = joinpath (rooted cs) n"
    by (simp add: resolved_def rooted_snoc)
  have "components (rooted cs) = cs"
  proof -
    from cs have "\<forall>c \<in> set cs. c \<noteq> [] \<and> c \<noteq> ''.'' \<and> CHR ''/'' \<notin> set c"
      using components_valid [of _ p] by auto
    then show ?thesis
    proof (induction cs rule: rev_induct)
      case Nil
      show ?case by (simp add: rooted_def components_def)
    next
      case (snoc c cs)
      then show ?case
        by (simp add: rooted_snoc components_joinpath)
    qed
  qed
  then have "resolved (rooted cs)"
    by (simp add: resolved_def)
  with p n show ?thesis
    by (intro that [of "rooted cs" n]) auto
qed

lemma resolved_Path_of:
  assumes r: "resolved p" and ne: "p \<noteq> []"
  shows "Path_of p = p" and "str_path p = p"
proof -
  from r ne have c_ne: "components p \<noteq> []"
    by (auto simp: resolved_def rooted_def)
  then obtain c cs where cs: "components p = c # cs"
    by (cases "components p") auto
  then have c: "c \<noteq> [] \<and> CHR ''/'' \<notin> set c"
    using components_valid [of c p] by simp
  then obtain x xs where x: "c = x # xs" "x \<noteq> CHR ''/''"
    by (cases c) auto
  from r cs have p: "p = CHR ''/'' # x # xs @ rooted cs"
    by (simp add: resolved_def rooted_def x)
  then have t1: "take 1 p = ''/''" and t2: "take 2 p \<noteq> ''//''"
    using x by (cases p; simp)+
  from t1 t2 r show "Path_of p = p"
    by (simp add: Path_of_def resolved_def Let_def)
  from p show "str_path p = p"
    by (auto simp: str_path_def)
qed

lemma resolved_name:
  assumes r: "resolved p" and ne: "p \<noteq> []"
  shows "path_name p \<noteq> []" "path_name p \<noteq> ''.''" "CHR ''/'' \<in> set p"
proof -
  from resolved_shape [OF r ne] obtain q n
    where p: "p = joinpath q n" and n: "n \<noteq> []" "n \<noteq> ''.''" "CHR ''/'' \<notin> set n"
    by blast
  have "path_name p = n"
    using n(3) by (simp add: p path_name_joinpath)
  with n show "path_name p \<noteq> []" "path_name p \<noteq> ''.''"
    by simp_all
  from p show "CHR ''/'' \<in> set p"
    by (simp add: joinpath_def)
qed

lemma node_at_root: "node_at fs [] = Some Dir"
  by (simp add: node_at_def)

lemma node_at_update:
  "node_at (AList.update k v fs) q = (if q = [] then Some Dir else if q = k then Some v else node_at fs q)"
  by (simp add: node_at_def update_conv')

lemma node_at_delete:
  "node_at (AList.delete k fs) q = (if q = [] then Some Dir else if q = k then None else node_at fs q)"
  by (simp add: node_at_def delete_conv')

lemma mkdir_parents_is_dir: "mkdir_parents fs p = Inr fs' \<Longrightarrow> is_dir fs' p"
proof (induction fs p arbitrary: fs' rule: mkdir_parents.induct)
  case (1 fs p)
  from "1.prems" show ?case
    by (subst (asm) mkdir_parents.simps)
       (auto simp: is_dir_def node_at_update split: option.splits node.splits sum.splits)
qed

lemma mkdir_parents_existing: "is_dir fs p \<Longrightarrow> mkdir_parents fs p = Inr fs"
  by (subst mkdir_parents.simps) (simp add: is_dir_def)

lemma mkdir_parents_node:
  "mkdir_parents fs p = Inr fs' \<Longrightarrow>
     node_at fs' q = node_at fs q \<or> (node_at fs q = None \<and> node_at fs' q = Some Dir)"
proof (induction fs p arbitrary: fs' rule: mkdir_parents.induct)
  case (1 fs p)
  show ?case
  proof (cases "node_at fs p")
    case (Some n)
    with "1.prems" show ?thesis
      by (subst (asm) mkdir_parents.simps) (auto split: node.splits)
  next
    case None
    show ?thesis
    proof (cases "node_at fs (path_parent p)")
      case (Some n)
      with None "1.prems" show ?thesis
        by (subst (asm) mkdir_parents.simps)
           (auto simp: node_at_update node_at_root split: node.splits if_splits)
    next
      case pn: None
      with None "1.prems" obtain fs1 where r: "mkdir_parents fs (path_parent p) = Inr fs1"
        and fs': "fs' = AList.update p Dir fs1"
        by (subst (asm) mkdir_parents.simps) (auto split: sum.splits)
      from "1.IH" [OF None pn r]
      have "node_at fs1 q = node_at fs q \<or> (node_at fs q = None \<and> node_at fs1 q = Some Dir)" .
      with None fs' show ?thesis
        by (auto simp: node_at_update node_at_root split: if_splits)
    qed
  qed
qed

lemma find_free_candidate:
  "\<forall>k<c. path_exists fs (candidate dest k) \<Longrightarrow>
     \<exists>n\<ge>c. find_free fs dest (candidate dest c) (c + 1) = candidate dest n
        \<and> (\<forall>k<n. path_exists fs (candidate dest k)) \<and> \<not> path_exists fs (candidate dest n)"
proof (induction fs dest "candidate dest c" "c + 1" arbitrary: c rule: find_free.induct)
  case (1 fs dest c)
  show ?case
  proof (cases "path_exists fs (candidate dest c)")
    case False
    then have "find_free fs dest (candidate dest c) (c + 1) = candidate dest c"
      by (subst find_free.simps) simp
    with False "1.prems" show ?thesis
      by auto
  next
    case True
    have next_c: "numbered dest (c + 1) = candidate dest (c + 1)"
      by (simp add: candidate_def)
    from True "1.prems" have "\<forall>k<c + 1. path_exists fs (candidate dest k)"
      by (auto simp: less_Suc_eq)
    from "1.hyps" [OF True next_c refl this]
    obtain n where "n \<ge> c + 1"
      and "find_free fs dest (candidate dest (c + 1)) (c + 1 + 1) = candidate dest n"
      and "\<forall>k<n. path_exists fs (candidate dest k)" and "\<not> path_exists fs (candidate dest n)"
      by blast
    moreover from True
    have "find_free fs dest (candidate dest c) (c + 1)
        = find_free fs dest (candidate dest (c + 1)) (c + 1 + 1)"
      by (subst find_free.simps) (simp add: candidate_def)
    ultimately show ?thesis
      by (intro exI [of _ n]) auto
  qed
qed

lemma find_free_first:
  "\<exists>n. find_free fs dest dest 1 = candidate dest n
     \<and> (\<forall>k<n. path_exists fs (candidate dest k)) \<and> \<not> path_exists fs (candidate dest n)"
  using find_free_candidate [of 0 fs dest] by (auto simp: candidate_def)

lemma str_nat_digits: "set (str_nat n) \<subseteq> set ''0123456789''"
proof (induction n rule: str_nat.induct)
  case (1 n)
  have d: "k < 10 \<Longrightarrow> digit k \<in> set ''0123456789''" for k
    unfolding digit_def by (rule nth_mem) simp
  show ?case
  proof (cases "n < 10")
    case True
    then have "str_nat n = [digit n]"
      by (subst str_nat.simps) simp
    with d [OF True] show ?thesis
      by simp
  next
    case False
    then have "str_nat n = str_nat (n div 10) @ [digit (n mod 10)]"
      by (subst str_nat.simps) simp
    moreover have "digit (n mod 10) \<in> set ''0123456789''"
      by (rule d) simp
    ultimately show ?thesis
      using "1.IH" [OF False] by simp
  qed
qed

lemma str_nat_no_slash: "CHR ''/'' \<notin> set (str_nat n)"
  using str_nat_digits [of n] by auto

lemma path_stem_no_slash: "CHR ''/'' \<notin> set (path_stem p)"
  using path_name_no_slash [of p] by (auto simp: path_stem_def Let_def dest: in_set_takeD)

lemma path_suffix_no_slash: "CHR ''/'' \<notin> set (path_suffix p)"
  using path_name_no_slash [of p] by (auto simp: path_suffix_def Let_def dest: in_set_dropD)

lemma path_parent_candidate: "path_parent (candidate dest n) = path_parent dest"
  by (simp add: candidate_def numbered_def with_name_def path_parent_joinpath
      path_stem_no_slash path_suffix_no_slash str_nat_no_slash)

lemma shutil_move_file:
  assumes "node_at fs src = Some (File f)" and "\<not> is_dir fs dst"
    and "is_dir fs (path_parent dst)"
  shows "shutil_move fs src dst = Inr (AList.update dst (File f) (AList.delete src fs))"
  using assms by (simp add: shutil_move_def)

lemma mkdir_parents_keeps:
  "mkdir_parents fs p = Inr fs' \<Longrightarrow> node_at fs q = Some n \<Longrightarrow> node_at fs' q = Some n"
  using mkdir_parents_node [of fs p fs' q] by auto

lemma safe_move_live:
  assumes src: "node_at (files w) src = Some (File f)"
    and mk: "mkdir_parents (files w) (path_parent dest) = Inr fs1"
  shows "\<exists>n. safe_move w src dest False
           = Inr (Some (candidate dest n),
                  emit INFO (''Moved '' @ path_name src @ '' -> '' @ candidate dest n)
                    (w\<lparr>files := AList.update (candidate dest n) (File f) (AList.delete src fs1)\<rparr>))
         \<and> (\<forall>k<n. path_exists fs1 (candidate dest k))
         \<and> \<not> path_exists fs1 (candidate dest n)"
proof -
  obtain n where ff: "find_free fs1 dest dest 1 = candidate dest n"
    and taken: "\<forall>k<n. path_exists fs1 (candidate dest k)"
    and free: "\<not> path_exists fs1 (candidate dest n)"
    using find_free_first [of fs1 dest] by blast
  from mk src have src1: "node_at fs1 src = Some (File f)"
    by (rule mkdir_parents_keeps)
  from free have nd: "\<not> is_dir fs1 (candidate dest n)"
    by (simp add: path_exists_def is_dir_def)
  from mk have "is_dir fs1 (path_parent (candidate dest n))"
    by (simp add: path_parent_candidate mkdir_parents_is_dir)
  with src1 nd have "shutil_move fs1 src (candidate dest n)
      = Inr (AList.update (candidate dest n) (File f) (AList.delete src fs1))"
    by (rule shutil_move_file)
  with mk ff have "safe_move w src dest False
           = Inr (Some (candidate dest n),
                  emit INFO (''Moved '' @ path_name src @ '' -> '' @ candidate dest n)
                    (w\<lparr>files := AList.update (candidate dest n) (File f) (AList.delete src fs1)\<rparr>))"
    by (simp add: safe_move_def Let_def)
  with taken free show ?thesis
    by blast
qed

lemma candidate_target:
  "candidate (joinpath d (path_name item)) k
     = (if k = 0 then joinpath d (path_name item)
        else joinpath d (path_stem item @ ''_'' @ str_nat k @ path_suffix item))"
proof -
  have nm: "path_name (joinpath d (path_name item)) = path_name item"
    by (simp add: path_name_joinpath path_name_no_slash)
  then have "path_stem (joinpath d (path_name item)) = path_stem item"
    and "path_suffix (joinpath d (path_name item)) = path_suffix item"
    by (simp_all add: path_stem_def path_suffix_def)
  moreover have "path_parent (joinpath d (path_name item)) = d"
    by (simp add: path_parent_joinpath path_name_no_slash)
  ultimately show ?thesis
    by (simp add: candidate_def numbered_def with_name_def)
qed

lemma category_of_names: "category_of cs x = Some cat \<Longrightarrow> cat \<in> fst ` set cs"
  by (induction cs x rule: category_of.induct) (auto split: if_splits)

lemma folder_name_component:
  "CHR ''/'' \<notin> set (folder_name (which_category x))"
  "folder_name (which_category x) \<noteq> []"
  "folder_name (which_category x) \<noteq> ''.''"
proof -
  have "folder_name (which_category x) \<in> insert ''Other'' (fst ` set CATEGORIES)"
    by (auto simp: folder_name_def which_category_def dest: category_of_names split: option.splits)
  then have "folder_name (which_category x) \<in> set [''Other'', ''Images'', ''Documents'',
      ''Archives'', ''Code'', ''Audio'', ''Video'', ''Installers'']"
    by (auto simp: CATEGORIES_def)
  then show "CHR ''/'' \<notin> set (folder_name (which_category x))"
    "folder_name (which_category x) \<noteq> []" "folder_name (which_category x) \<noteq> ''.''"
    by auto
qed

lemma resolved_target_dir:
  assumes "resolved dest_parent"
  shows "resolved (target_dir dest_parent by_date item f)"
proof -
  let ?c = "folder_name (which_category (code_points (path_suffix item)))"
  let ?sub = "str_nat (mtime_year f) @ ''-'' @ pad2 (mtime_month f)"
  from resolved_joinpath [OF assms folder_name_component]
  have top: "resolved (joinpath dest_parent ?c)" .
  have "CHR ''/'' \<notin> set (pad2 (mtime_month f))"
    using str_nat_no_slash [of "mtime_month f"] by (simp add: pad2_def)
  then have s1: "CHR ''/'' \<notin> set ?sub"
    by (simp add: str_nat_no_slash)
  have s2: "?sub \<noteq> []"
    by simp
  have s3: "?sub \<noteq> ''.''"
    using str_nat_not_Nil [of "mtime_year f"] by (cases "str_nat (mtime_year f)") auto
  from resolved_joinpath [OF top s1 s2 s3]
  have "resolved (joinpath (joinpath dest_parent ?c) ?sub)" .
  with top show ?thesis
    by (simp add: target_dir_def Let_def)
qed

lemma resolved_candidate:
  assumes td: "resolved td" and item: "resolved item" "item \<noteq> []"
  shows "resolved (candidate (joinpath td (path_name item)) n)"
proof (cases "n = 0")
  case True
  from resolved_joinpath [OF td path_name_no_slash resolved_name(1,2) [OF item]]
  have "resolved (joinpath td (path_name item))" .
  with True show ?thesis
    by (simp add: candidate_target)
next
  case False
  let ?nm = "path_stem item @ ''_'' @ str_nat n @ path_suffix item"
  have n1: "CHR ''/'' \<notin> set ?nm"
    by (simp add: path_stem_no_slash str_nat_no_slash path_suffix_no_slash)
  have n2: "?nm \<noteq> []"
    by simp
  have n3: "?nm \<noteq> ''.''"
    by (cases "path_stem item") auto
  from resolved_joinpath [OF td n1 n2 n3] have "resolved (joinpath td ?nm)" .
  with False show ?thesis
    by (simp add: candidate_target)
qed

lemma organize_item_live:
  assumes item: "node_at (files w) item = Some (File f)"
    and size: "\<not> int (st_size f) < min_size_kb * 1024"
    and mk: "mkdir_parents (files w) (target_dir dest_parent by_date item f) = Inr fs1"
  shows "\<exists>n. organize_item dest_parent False by_date min_size_kb (moves, w) item
        = Inr (moves @ [move_record item
                 (candidate (joinpath (target_dir dest_parent by_date item f) (path_name item)) n)],
               emit INFO (''Moved '' @ path_name item @ '' -> ''
                   @ candidate (joinpath (target_dir dest_parent by_date item f) (path_name item)) n)
                 (w\<lparr>files := AList.update
                    (candidate (joinpath (target_dir dest_parent by_date item f) (path_name item)) n)
                    (File f) (AList.delete item fs1)\<rparr>))
    \<and> (\<forall>k<n. path_exists fs1
          (candidate (joinpath (target_dir dest_parent by_date item f) (path_name item)) k))
    \<and> \<not> path_exists fs1
          (candidate (joinpath (target_dir dest_parent by_date item f) (path_name item)) n)"
proof -
  let ?d = "target_dir dest_parent by_date item f"
  let ?target = "joinpath ?d (path_name item)"
  have parent: "path_parent ?target = ?d"
    by (simp add: path_parent_joinpath path_name_no_slash)
  from mk have "is_dir fs1 ?d"
    by (rule mkdir_parents_is_dir)
  then have mk1: "mkdir_parents (files (w\<lparr>files := fs1\<rparr>)) (path_parent ?target) = Inr fs1"
    by (simp add: parent mkdir_parents_existing)
  from mk item have item1: "node_at (files (w\<lparr>files := fs1\<rparr>)) item = Some (File f)"
    by (simp add: mkdir_parents_keeps)
  from safe_move_live [OF item1 mk1]
  obtain n where sm: "safe_move (w\<lparr>files := fs1\<rparr>) item ?target False
           = Inr (Some (candidate ?target n),
                  emit INFO (''Moved '' @ path_name item @ '' -> '' @ candidate ?target n)
                    (w\<lparr>files := AList.update (candidate ?target n) (File f) (AList.delete item fs1)\<rparr>))"
    and taken: "\<forall>k<n. path_exists fs1 (candidate ?target k)"
    and free: "\<not> path_exists fs1 (candidate ?target n)"
    by auto
  from item size mk sm
  have "organize_item dest_parent False by_date min_size_kb (moves, w) item
        = Inr (moves @ [move_record item (candidate ?target n)],
               emit INFO (''Moved '' @ path_name item @ '' -> '' @ candidate ?target n)
                 (w\<lparr>files := AList.update (candidate ?target n) (File f) (AList.delete item fs1)\<rparr>))"
    by (simp add: organize_item_def Let_def)
  with taken free show ?thesis
    by blast
qed

lemma organize_item_dry:
  assumes item: "node_at (files w) item = Some (File f)"
    and size: "\<not> int (st_size f) < min_size_kb * 1024"
    and mk: "mkdir_parents (files w) (target_dir dest_parent by_date item f) = Inr fs1"
  shows "organize_item dest_parent True by_date min_size_kb (moves, w) item
        = Inr (moves @ [dry_record item
                 (joinpath (target_dir dest_parent by_date item f) (path_name item))],
               emit INFO (''DRY: would move '' @ item @ '' -> ''
                   @ joinpath (target_dir dest_parent by_date item f) (path_name item))
                 (w\<lparr>files := fs1\<rparr>))"
proof -
  let ?d = "target_dir dest_parent by_date item f"
  let ?target = "joinpath ?d (path_name item)"
  have parent: "path_parent ?target = ?d"
    by (simp add: path_parent_joinpath path_name_no_slash)
  from mk have "is_dir fs1 ?d"
    by (rule mkdir_parents_is_dir)
  then have "mkdir_parents fs1 (path_parent ?target) = Inr fs1"
    by (simp add: parent mkdir_parents_existing)
  then have "safe_move (w\<lparr>files := fs1\<rparr>) item ?target True
      = Inr (None, emit INFO (''DRY: would move '' @ item @ '' -> '' @ ?target) (w\<lparr>files := fs1\<rparr>))"
    by (simp add: safe_move_def)
  with item size mk show ?thesis
    by (simp add: organize_item_def Let_def)
qed



lemma quiet_step_refl: "quiet_step w w"
  by (simp add: quiet_step_def)

lemma quiet_step_trans:
  assumes "quiet_step a b" and "quiet_step b c"
  shows "quiet_step a c"
proof -
  from assms obtain x y where x: "log b = log a @ x" "\<forall>entry \<in> set x. fst entry = INFO"
    and y: "log c = log b @ y" "\<forall>entry \<in> set y. fst entry = INFO"
    unfolding quiet_step_def by blast
  then have "log c = log a @ (x @ y)" and "\<forall>entry \<in> set (x @ y). fst entry = INFO"
    by auto
  then have "\<exists>extra. log c = log a @ extra \<and> (\<forall>entry \<in> set extra. fst entry = INFO)"
    by blast
  moreover from assms have "\<forall>d. is_dir (files a) d \<longrightarrow> is_dir (files c) d"
    unfolding quiet_step_def by blast
  ultimately show ?thesis
    unfolding quiet_step_def by blast
qed

lemma organize_item_quiet:
  assumes "organize_item dest_parent dry_run by_date min_size_kb (moves, w) item = Inr (moves', w')"
  shows "quiet_step w w'"
proof (cases "node_at (files w) item")
  case None
  with assms show ?thesis
    by (simp add: organize_item_def)
next
  case (Some nd)
  show ?thesis
  proof (cases nd)
    case Dir
    with Some assms have "w' = w"
      by (auto simp: organize_item_def emit_def split: if_splits)
    then show ?thesis
      by (simp add: quiet_step_refl)
  next
    case (File f)
    show ?thesis
    proof (cases "int (st_size f) < min_size_kb * 1024")
      case True
      with Some File assms have "w' = w"
        by (auto simp: organize_item_def emit_def)
      then show ?thesis
        by (simp add: quiet_step_refl)
    next
      case False
      from Some File have item: "node_at (files w) item = Some (File f)"
        by simp
      from assms item False
      obtain fs1 where mk: "mkdir_parents (files w) (target_dir dest_parent by_date item f) = Inr fs1"
        by (auto simp: organize_item_def Let_def split: sum.splits)
      have keeps: "is_dir (files w) d \<Longrightarrow> is_dir fs1 d" for d
        using mkdir_parents_keeps [OF mk] by (simp add: is_dir_def)
      show ?thesis
      proof (cases dry_run)
        case True
        with assms organize_item_dry [OF item False mk, of moves]
        have "w' = emit INFO (''DRY: would move '' @ item @ '' -> ''
                   @ joinpath (target_dir dest_parent by_date item f) (path_name item))
                 (w\<lparr>files := fs1\<rparr>)"
          by simp
        with keeps show ?thesis
          by (simp add: quiet_step_def emit_def)
      next
        case live: False
        let ?t = "joinpath (target_dir dest_parent by_date item f) (path_name item)"
        from organize_item_live [OF item False mk, of moves] live assms
        obtain n where w': "w' = emit INFO (''Moved '' @ path_name item @ '' -> '' @ candidate ?t n)
                 (w\<lparr>files := AList.update (candidate ?t n) (File f) (AList.delete item fs1)\<rparr>)"
          and free: "\<not> path_exists fs1 (candidate ?t n)"
          by auto
        from mk item have item1: "node_at fs1 item = Some (File f)"
          by (rule mkdir_parents_keeps)
        have "is_dir (AList.update (candidate ?t n) (File f) (AList.delete item fs1)) d"
          if "is_dir (files w) d" for d
        proof -
          from that have d: "is_dir fs1 d"
            by (rule keeps)
          with item1 have "d \<noteq> item"
            by (auto simp: is_dir_def)
          moreover from d free have "d \<noteq> candidate ?t n"
            by (auto simp: is_dir_def path_exists_def)
          ultimately show ?thesis
            using d by (simp add: is_dir_def node_at_update node_at_delete)
        qed
        with w' show ?thesis
          by (simp add: quiet_step_def emit_def)
      qed
    qed
  qed
qed

lemma organize_loop_quiet:
  "organize_loop dest_parent dry_run by_date min_size_kb (moves, w) items = Inr (moves', w')
     \<Longrightarrow> quiet_step w w'"
proof (induction items arbitrary: moves w)
  case Nil
  then show ?case
    by (simp add: quiet_step_refl)
next
  case (Cons item items)
  from Cons.prems obtain moves1 w1
    where step: "organize_item dest_parent dry_run by_date min_size_kb (moves, w) item = Inr (moves1, w1)"
      and rest: "organize_loop dest_parent dry_run by_date min_size_kb (moves1, w1) items = Inr (moves', w')"
    by (auto split: sum.splits)
  from organize_item_quiet [OF step] Cons.IH [OF rest] show ?case
    by (rule quiet_step_trans)
qed

lemma METADATA_FILE_no_slash: "CHR ''/'' \<notin> set METADATA_FILE"
  by (simp add: METADATA_FILE_def)

lemma history_parent: "path_parent (joinpath source METADATA_FILE) = source"
  by (simp add: path_parent_joinpath METADATA_FILE_no_slash)

lemma write_text_file:
  "\<not> is_dir fs p \<Longrightarrow> is_dir fs (path_parent p) \<Longrightarrow>
     write_text e fs p j
       = Inr (AList.update p
           (File \<lparr>st_size = dumps_size e j, mtime_year = clock_year e,
                  mtime_month = clock_month e, content = JsonText j\<rparr>) fs)"
  by (simp add: write_text_def)

text \<open>The list a live run writes when the history file holds \<open>c\<close>.\<close>

lemma append_run_existing:
  assumes dir: "is_dir (files w1) source"
    and hist: "node_at (files w1) (joinpath source METADATA_FILE) = Some (File f)"
  shows "append_run e source moves w1
     = Inr (emit INFO (''Saved history to '' @ joinpath source METADATA_FILE)
         (w1\<lparr>files := AList.update (joinpath source METADATA_FILE)
            (File \<lparr>st_size = dumps_size e
                     (case content f of
                        Unparseable t \<Rightarrow> JList [history_record e moves]
                      | JsonText (JList xs) \<Rightarrow> JList (xs @ [history_record e moves])
                      | JsonText j \<Rightarrow> JList [j, history_record e moves]),
                   mtime_year = clock_year e, mtime_month = clock_month e,
                   content = JsonText
                     (case content f of
                        Unparseable t \<Rightarrow> JList [history_record e moves]
                      | JsonText (JList xs) \<Rightarrow> JList (xs @ [history_record e moves])
                      | JsonText j \<Rightarrow> JList [j, history_record e moves])\<rparr>)
            (files w1)\<rparr>))"
proof -
  from hist have nd: "\<not> is_dir (files w1) (joinpath source METADATA_FILE)"
    by (simp add: is_dir_def)
  from dir have pd: "is_dir (files w1) (path_parent (joinpath source METADATA_FILE))"
    by (simp add: history_parent)
  from hist have ex: "path_exists (files w1) (joinpath source METADATA_FILE)"
    by (simp add: path_exists_def)
  show ?thesis
    using hist ex
    by (cases "content f")
       (auto simp: append_run_def Let_def write_text_file [OF nd pd] split: json.splits)
qed

lemma run_organize_live:
  assumes dir: "is_dir (files w) source"
    and loop: "organize_loop (case dest_parent of Some d \<Rightarrow> d | None \<Rightarrow> source)
                 False by_date min_size_kb ([], w) (iterdir (files w) source) = Inr (moves, w1)"
  shows "run_organize e source dest_parent False by_date min_size_kb w
           = append_run e source moves w1"
    and "is_dir (files w1) source"
    and "\<exists>extra. log w1 = log w @ extra \<and> (\<forall>entry \<in> set extra. fst entry = INFO)"
proof -
  from dir loop show "run_organize e source dest_parent False by_date min_size_kb w
           = append_run e source moves w1"
    by (simp add: run_organize_def)
  from organize_loop_quiet [OF loop] have q: "quiet_step w w1" .
  with dir show "is_dir (files w1) source"
    by (simp add: quiet_step_def)
  from q show "\<exists>extra. log w1 = log w @ extra \<and> (\<forall>entry \<in> set extra. fst entry = INFO)"
    by (simp add: quiet_step_def)
qed

lemma restore_file:
  assumes b: "node_at (files w) (Path_of b) = Some (File f)"
    and mk: "mkdir_parents (files w) (path_parent (Path_of a)) = Inr fs1"
    and a: "\<not> is_dir fs1 (Path_of a)"
  shows "restore w (move_record a b)
     = Inr (emit INFO (''Restored '' @ path_name (Path_of b) @ '' -> '' @ str_path (Path_of a))
          (w\<lparr>files := AList.update (Path_of a) (File f) (AList.delete (Path_of b) fs1)\<rparr>))"
proof -
  from mk b have "node_at fs1 (Path_of b) = Some (File f)"
    by (rule mkdir_parents_keeps)
  moreover from mk have "is_dir fs1 (path_parent (Path_of a))"
    by (rule mkdir_parents_is_dir)
  ultimately have "shutil_move fs1 (Path_of b) (Path_of a)
      = Inr (AList.update (Path_of a) (File f) (AList.delete (Path_of b) fs1))"
    using a by (intro shutil_move_file)
  with b mk show ?thesis
    by (simp add: restore_def move_record_def path_exists_def Let_def)
qed


lemma restore_file_resolved:
  assumes b: "node_at (files w) b = Some (File f)"
    and mk: "mkdir_parents (files w) (path_parent a) = Inr fs1"
    and a: "\<not> is_dir fs1 a"
    and r: "resolved a" "resolved b"
  shows "restore w (move_record a b)
     = Inr (emit INFO (''Restored '' @ path_name b @ '' -> '' @ a)
          (w\<lparr>files := AList.update a (File f) (AList.delete b fs1)\<rparr>))"
proof -
  from a have "a \<noteq> []"
    by (auto simp: is_dir_def node_at_root)
  with r(1) have pa: "Path_of a = a" "str_path a = a"
    by (simp_all add: resolved_Path_of)
  from b have "b \<noteq> []"
    by (auto simp: node_at_root)
  with r(2) have pb: "Path_of b = b"
    by (simp add: resolved_Path_of)
  from restore_file [of w b f a fs1] b mk a pa pb show ?thesis
    by simp
qed










lemma run_undo_list:
  assumes hist: "node_at (files w) (joinpath source METADATA_FILE) = Some (File h)"
    and shape: "content h = JsonText (JList (rs @ [JObj kvs]))"
    and moves: "map_of kvs ''moves'' = Some (JList ms)"
  shows "run_undo e source w
     = (case restore_all w (rev ms) of
          Inl err \<Rightarrow> Inl err
        | Inr w1 \<Rightarrow>
            (case write_text e (files w1) (joinpath source METADATA_FILE) (JList rs) of
               Inl err \<Rightarrow> Inl err
             | Inr fs' \<Rightarrow> Inr (emit INFO ''Undo complete.'' (w1\<lparr>files := fs'\<rparr>))))"
  using assms by (simp add: run_undo_def path_exists_def reversed_def cong: sum.case_cong)

lemma restore_all_append:
  "restore_all w (xs @ ys)
     = (case restore_all w xs of Inl e \<Rightarrow> Inl e | Inr w' \<Rightarrow> restore_all w' ys)"
  by (induction xs arbitrary: w) (auto split: sum.splits)

lemma run_undo_from:
  assumes hist: "node_at (files w) (joinpath source METADATA_FILE) = Some (File h)"
    and shape: "content h = JsonText (JList (rs @ [JObj kvs]))"
    and moves: "map_of kvs ''moves'' = Some (JList ms)"
  shows "run_undo e source w = undo_from e source rs (rev ms) w"
  using run_undo_list [OF assms] by (simp add: undo_from_def)

lemma undo_from_turn:
  assumes "restore_all w (rev later) = Inr u"
  shows "undo_from e source rs (rev (earlier @ [m] @ later)) w
     = (case restore u m of Inl err \<Rightarrow> Inl err | Inr v \<Rightarrow> undo_from e source rs (rev earlier) v)"
  using assms by (simp add: undo_from_def restore_all_append split: sum.splits)



lemma safe_move_keeps:
  assumes src: "node_at (files w) src = Some (File f)"
    and mv: "safe_move w src dest False = Inr (r, u)"
    and p: "p \<noteq> src" "node_at (files w) p = Some n"
  shows "node_at (files u) p = Some n"
proof -
  from mv obtain fs1 where mk: "mkdir_parents (files w) (path_parent dest) = Inr fs1"
    by (auto simp: safe_move_def split: sum.splits)
  from safe_move_live [OF src mk] mv obtain k
    where u: "u = emit INFO (''Moved '' @ path_name src @ '' -> '' @ candidate dest k)
                    (w\<lparr>files := AList.update (candidate dest k) (File f) (AList.delete src fs1)\<rparr>)"
      and free: "\<not> path_exists fs1 (candidate dest k)"
    by auto
  from mk p(2) have p1: "node_at fs1 p = Some n"
    by (rule mkdir_parents_keeps)
  with free have "p \<noteq> candidate dest k"
    by (auto simp: path_exists_def)
  with p(1) p1 u show ?thesis
    by (auto simp: emit_def node_at_update node_at_delete node_at_root)
qed

lemma path_suffix_shape:
  "path_suffix p = [] \<or> (\<exists>r. path_suffix p = CHR ''.'' # r \<and> r \<noteq> [] \<and> CHR ''.'' \<notin> set r)"
proof (cases "path_suffix p = []")
  case True
  then show ?thesis
    by simp
next
  case False
  define nm where "nm = path_name p"
  define tw where "tw = takeWhile (\<lambda>x. x \<noteq> CHR ''.'') (rev nm)"
  define dw where "dw = dropWhile (\<lambda>x. x \<noteq> CHR ''.'') (rev nm)"
  from False have dot: "CHR ''.'' \<in> set nm" and long: "tw \<noteq> []"
    and suf: "path_suffix p = drop (nat (rfind (CHR ''.'') nm)) nm"
    by (auto simp: path_suffix_def Let_def rfind_def nm_def tw_def split: if_splits)
  from dot have "dw \<noteq> []"
    by (auto simp: dw_def)
  moreover have "hd dw = CHR ''.''" if "dw \<noteq> []"
    using that hd_dropWhile [of "\<lambda>x. x \<noteq> CHR ''.''" "rev nm"] by (simp add: dw_def)
  ultimately obtain rest where dw: "dw = CHR ''.'' # rest"
    by (cases dw) auto
  have "rev nm = tw @ dw"
    by (simp add: tw_def dw_def)
  then have "nm = rev dw @ rev tw"
    by (metis rev_append rev_rev_ident)
  with dw have nm: "nm = rev rest @ CHR ''.'' # rev tw"
    by simp
  have "rfind (CHR ''.'') nm = int (length nm) - 1 - int (length tw)"
    using dot by (simp add: rfind_def tw_def)
  moreover have "length nm = length rest + 1 + length tw"
    by (subst nm) simp
  ultimately have "rfind (CHR ''.'') nm = int (length rest)"
    by simp
  with suf nm have "path_suffix p = CHR ''.'' # rev tw"
    by simp
  moreover have "CHR ''.'' \<notin> set (rev tw)"
    by (auto simp: tw_def dest: set_takeWhileD)
  ultimately show ?thesis
    using long by auto
qed

lemma metadata_not_numbered:
  "path_stem p @ ''_'' @ str_nat n @ path_suffix p \<noteq> METADATA_FILE"
proof
  assume eq: "path_stem p @ ''_'' @ str_nat n @ path_suffix p = METADATA_FILE"
  have "last (str_nat n) \<in> set ''0123456789''"
    using str_nat_digits [of n] str_nat_not_Nil [of n] last_in_set [of "str_nat n"]
    by blast
  then have digit_last: "last (xs @ ''_'' @ str_nat n) \<in> set ''0123456789''" for xs
    by (simp add: str_nat_not_Nil)
  from path_suffix_shape [of p] show False
  proof
    assume "path_suffix p = []"
    with eq have "last (path_stem p @ ''_'' @ str_nat n) = last METADATA_FILE"
      by simp
    with digit_last [of "path_stem p"] show False
      by (simp add: METADATA_FILE_def)
  next
    assume "\<exists>r. path_suffix p = CHR ''.'' # r \<and> r \<noteq> [] \<and> CHR ''.'' \<notin> set r"
    then obtain r where suf: "path_suffix p = CHR ''.'' # r" and r: "CHR ''.'' \<notin> set r"
      by blast
    define y where "y = path_stem p @ ''_'' @ str_nat n"
    from eq suf have m: "METADATA_FILE = y @ CHR ''.'' # r"
      by (simp add: y_def)
    have "rev (y @ CHR ''.'' # r) = rev r @ CHR ''.'' # rev y"
      by simp
    with m have "rev METADATA_FILE = rev r @ CHR ''.'' # rev y"
      by simp
    moreover have "takeWhile (\<lambda>x. x \<noteq> CHR ''.'') (rev r @ CHR ''.'' # rev y) = rev r"
      using r by (subst takeWhile_append2) auto
    ultimately have "takeWhile (\<lambda>x. x \<noteq> CHR ''.'') (rev METADATA_FILE) = rev r"
      by simp
    then have "rev r = ''nosj''"
      by (simp add: METADATA_FILE_def)
    then have "rev (rev r) = rev ''nosj''"
      by (rule arg_cong)
    then have "r = ''json''"
      by simp
    with m have "''.organize_history'' @ ''.json'' = y @ ''.json''"
      by (simp add: METADATA_FILE_def)
    then have "y = ''.organize_history''"
      by (simp only: append_same_eq)
    moreover have "last y \<in> set ''0123456789''"
      unfolding y_def by (rule digit_last)
    ultimately show False
      by simp
  qed
qed

lemma joinpath_inj:
  assumes "CHR ''/'' \<notin> set n" and "CHR ''/'' \<notin> set m" and "joinpath p n = joinpath q m"
  shows "p = q \<and> n = m"
proof -
  from assms(3) have "path_parent (joinpath p n) = path_parent (joinpath q m)"
    and "path_name (joinpath p n) = path_name (joinpath q m)"
    by simp_all
  with assms(1,2) show ?thesis
    by (simp add: path_parent_joinpath path_name_joinpath)
qed

lemma candidate_is_history:
  assumes item: "CHR ''/'' \<in> set item" "path_parent item = source"
    and eq: "candidate (joinpath td (path_name item)) n = joinpath source METADATA_FILE"
  shows "n = 0 \<and> item = joinpath source METADATA_FILE"
proof (cases "n = 0")
  case True
  with eq have "joinpath td (path_name item) = joinpath source METADATA_FILE"
    by (simp add: candidate_def)
  then have "path_name item = METADATA_FILE"
    using joinpath_inj [OF path_name_no_slash METADATA_FILE_no_slash] by blast
  with joinpath_parent_name [OF item(1)] item(2) True show ?thesis
    by simp
next
  case False
  with eq have "joinpath td (path_stem item @ ''_'' @ str_nat n @ path_suffix item)
      = joinpath source METADATA_FILE"
    by (simp add: candidate_target)
  moreover have "CHR ''/'' \<notin> set (path_stem item @ ''_'' @ str_nat n @ path_suffix item)"
    by (simp add: path_stem_no_slash path_suffix_no_slash str_nat_no_slash)
  ultimately have "path_stem item @ ''_'' @ str_nat n @ path_suffix item = METADATA_FILE"
    using joinpath_inj [OF _ METADATA_FILE_no_slash] by blast
  with metadata_not_numbered show ?thesis
    by blast
qed

lemma organize_item_cases:
  assumes "organize_item dest_parent False by_date min_size_kb (moves, w) item = Inr (moves', w')"
  obtains (skipped) "moves' = moves" and "w' = w"
      and "\<forall>f. node_at (files w) item = Some (File f) \<longrightarrow> int (st_size f) < min_size_kb * 1024"
    | (moved) f fs1 td n
      where "node_at (files w) item = Some (File f)"
        and "\<not> int (st_size f) < min_size_kb * 1024"
        and "td = target_dir dest_parent by_date item f"
        and "mkdir_parents (files w) td = Inr fs1"
        and "\<not> path_exists fs1 (candidate (joinpath td (path_name item)) n)"
        and "moves' = moves @ [move_record item (candidate (joinpath td (path_name item)) n)]"
        and "files w' = AList.update (candidate (joinpath td (path_name item)) n) (File f)
                          (AList.delete item fs1)"
proof (cases "node_at (files w) item")
  case None
  with assms show ?thesis
    by (simp add: organize_item_def)
next
  case (Some nd)
  show ?thesis
  proof (cases nd)
    case Dir
    with Some assms have "moves' = moves" and "w' = w"
      by (auto simp: organize_item_def emit_def split: if_splits)
    with Some Dir show ?thesis
      by (intro skipped) auto
  next
    case (File f)
    show ?thesis
    proof (cases "int (st_size f) < min_size_kb * 1024")
      case True
      with Some File assms have "moves' = moves" and "w' = w"
        by (auto simp: organize_item_def emit_def)
      with Some File True show ?thesis
        by (intro skipped) auto
    next
      case False
      from Some File have item: "node_at (files w) item = Some (File f)"
        by simp
      from assms item False
      obtain fs1 where mk: "mkdir_parents (files w) (target_dir dest_parent by_date item f) = Inr fs1"
        by (auto simp: organize_item_def Let_def split: sum.splits)
      let ?t = "joinpath (target_dir dest_parent by_date item f) (path_name item)"
      from organize_item_live [OF item False mk, of moves] assms
      obtain n where "moves' = moves @ [move_record item (candidate ?t n)]"
        and "w' = emit INFO (''Moved '' @ path_name item @ '' -> '' @ candidate ?t n)
                 (w\<lparr>files := AList.update (candidate ?t n) (File f) (AList.delete item fs1)\<rparr>)"
        and "\<not> path_exists fs1 (candidate ?t n)"
        by auto
      with item False mk show ?thesis
        by (intro moved [of f "target_dir dest_parent by_date item f" fs1 n]) (simp_all add: emit_def)
    qed
  qed
qed

lemma undo_step:
  assumes a: "node_at s a = Some (File f)"
    and mk: "mkdir_parents s d = Inr fs1"
    and free: "\<not> path_exists fs1 b"
    and s': "s' = AList.update b (File f) (AList.delete a fs1)"
    and rel: "same_but_dirs hp s' (files u)"
    and ne: "a \<noteq> hp" "b \<noteq> hp"
    and nd: "\<not> is_dir (files u) a"
    and pd: "is_dir (files u) (path_parent a)"
    and ra: "resolved a"
    and rb: "resolved b"
  shows "\<exists>u'. restore u (move_record a b) = Inr u'
           \<and> same_but_dirs hp s (files u')
           \<and> (\<forall>p. is_dir (files u') p = is_dir (files u) p)"
proof -
  from free have b_ne: "b \<noteq> []"
    by (auto simp: path_exists_def node_at_root)
  from a have a_ne: "a \<noteq> []"
    by (auto simp: node_at_root)
  from free have fb: "node_at fs1 b = None"
    by (simp add: path_exists_def)
  from mk a have a1: "node_at fs1 a = Some (File f)"
    by (rule mkdir_parents_keeps)
  with fb have ab: "a \<noteq> b"
    by auto
  have s'_nodes: "node_at s' p = (if p = b then Some (File f) else if p = a then None else node_at fs1 p)" for p
    using a_ne b_ne by (auto simp: s' node_at_update node_at_delete node_at_root)
  from rel ne(2) s'_nodes [of b] have ub: "node_at (files u) b = Some (File f)"
    by (auto simp: same_but_dirs_def)
  from pd have mku: "mkdir_parents (files u) (path_parent a) = Inr (files u)"
    by (rule mkdir_parents_existing)
  let ?t' = "AList.update a (File f) (AList.delete b (files u))"
  let ?u' = "emit INFO (''Restored '' @ path_name b @ '' -> '' @ a) (u\<lparr>files := ?t'\<rparr>)"
  from restore_file_resolved [OF ub mku nd ra rb] have run: "restore u (move_record a b) = Inr ?u'" .
  have t'_nodes: "node_at ?t' p = (if p = a then Some (File f) else if p = b then None else node_at (files u) p)" for p
    using a_ne b_ne by (auto simp: node_at_update node_at_delete node_at_root)
  have files': "files ?u' = ?t'"
    by (simp add: emit_def)
  have "same_but_dirs hp s ?t'"
    unfolding same_but_dirs_def
  proof (intro allI impI)
    fix p
    assume p: "p \<noteq> hp"
    show "node_at ?t' p = node_at s p \<or> (node_at s p = None \<and> node_at ?t' p = Some Dir)"
    proof (cases "p = a")
      case True
      with a show ?thesis
        by (simp add: t'_nodes)
    next
      case False
      show ?thesis
      proof (cases "p = b")
        case True
        from mkdir_parents_node [OF mk, of b] fb have "node_at s b = None"
          by auto
        with True False show ?thesis
          by (simp add: t'_nodes)
      next
        case nb: False
        from rel p have "node_at (files u) p = node_at s' p
            \<or> (node_at s' p = None \<and> node_at (files u) p = Some Dir)"
          by (simp add: same_but_dirs_def)
        with False nb have "node_at (files u) p = node_at fs1 p
            \<or> (node_at fs1 p = None \<and> node_at (files u) p = Some Dir)"
          by (simp add: s'_nodes)
        with mkdir_parents_node [OF mk, of p] False nb show ?thesis
          by (auto simp: t'_nodes)
      qed
    qed
  qed
  moreover have "\<forall>p. is_dir ?t' p = is_dir (files u) p"
    using nd ub by (auto simp: is_dir_def t'_nodes)
  ultimately show ?thesis
    using run files' by (intro exI [of _ ?u']) simp
qed

lemma organize_loop_undo:
  assumes "organize_loop dest_parent False by_date min_size_kb (moves, w) items = Inr (moves', w')"
    and "distinct items"
    and "\<forall>item \<in> set items. node_at (files w) item \<noteq> None
            \<and> CHR ''/'' \<in> set item \<and> path_parent item = source"
    and "\<forall>f. node_at (files w) (joinpath source METADATA_FILE) = Some (File f)
            \<longrightarrow> int (st_size f) < min_size_kb * 1024"
    and "\<forall>item \<in> set items. resolved item"
    and "resolved dest_parent"
  shows "\<exists>ps. moves' = moves @ map (\<lambda>m. move_record (fst m) (snd m)) ps
     \<and> (\<forall>m \<in> set ps. fst m \<in> set items \<and> (\<exists>f. node_at (files w) (fst m) = Some (File f)))
     \<and> (node_at (files w') (joinpath source METADATA_FILE)
           = node_at (files w) (joinpath source METADATA_FILE)
         \<or> is_dir (files w') (joinpath source METADATA_FILE))
     \<and> (\<forall>u. same_but_dirs (joinpath source METADATA_FILE) (files w') (files u)
              \<and> is_dir (files u) source \<and> (\<forall>m \<in> set ps. \<not> is_dir (files u) (fst m))
           \<longrightarrow> (\<exists>u'. restore_all u (map (\<lambda>m. move_record (fst m) (snd m)) (rev ps)) = Inr u'
                  \<and> same_but_dirs (joinpath source METADATA_FILE) (files w) (files u')
                  \<and> (\<forall>p. is_dir (files u') p = is_dir (files u) p)))"
  using assms
proof (induction items arbitrary: moves w)
  case Nil
  then have "moves' = moves" and "w' = w"
    by simp_all
  then show ?case
    by (intro exI [of _ "[]"]) simp
next
  case (Cons item items)
  let ?hp = "joinpath source METADATA_FILE"
  let ?mr = "\<lambda>m. move_record (fst m) (snd m)"
  from Cons.prems(1) obtain moves1 w1
    where step: "organize_item dest_parent False by_date min_size_kb (moves, w) item = Inr (moves1, w1)"
      and rest: "organize_loop dest_parent False by_date min_size_kb (moves1, w1) items = Inr (moves', w')"
    by (auto split: sum.splits)
  from Cons.prems(2) have dist: "distinct items" and fresh: "item \<notin> set items"
    by simp_all
  from Cons.prems(3) have item: "CHR ''/'' \<in> set item" "path_parent item = source"
    and items: "\<forall>i \<in> set items. node_at (files w) i \<noteq> None
            \<and> CHR ''/'' \<in> set i \<and> path_parent i = source"
    by simp_all
  note small = Cons.prems(4)
  from Cons.prems(5) have r_item: "resolved item" and r_items: "\<forall>i \<in> set items. resolved i"
    by simp_all
  note r_dest = Cons.prems(6)
  from step show ?case
  proof (cases rule: organize_item_cases)
    case skipped
    with rest have "organize_loop dest_parent False by_date min_size_kb (moves, w) items = Inr (moves', w')"
      by simp
    from Cons.IH [OF this dist items small r_items r_dest] obtain ps
      where "moves' = moves @ map ?mr ps"
        and "\<forall>m \<in> set ps. fst m \<in> set items \<and> (\<exists>f. node_at (files w) (fst m) = Some (File f))"
        and "node_at (files w') ?hp = node_at (files w) ?hp \<or> is_dir (files w') ?hp"
        and "\<forall>u. same_but_dirs ?hp (files w') (files u)
              \<and> is_dir (files u) source \<and> (\<forall>m \<in> set ps. \<not> is_dir (files u) (fst m))
           \<longrightarrow> (\<exists>u'. restore_all u (map ?mr (rev ps)) = Inr u'
                  \<and> same_but_dirs ?hp (files w) (files u')
                  \<and> (\<forall>p. is_dir (files u') p = is_dir (files u) p))"
      by blast
    then show ?thesis
      by (intro exI [of _ ps]) simp
  next
    case (moved f fs1 td n)
    let ?b = "candidate (joinpath td (path_name item)) n"
    note a = moved(1) and big = moved(2) and td = moved(3) and mk = moved(4) and free = moved(5)
      and mv = moved(6) and f1 = moved(7)
    from a big small have a_hp: "item \<noteq> ?hp"
      by auto
    have b_hp: "?b \<noteq> ?hp"
    proof
      assume "?b = ?hp"
      from candidate_is_history [OF item this] a_hp show False
        by simp
    qed
    from free have fb: "node_at fs1 ?b = None"
      by (simp add: path_exists_def)
    from a have a_ne: "item \<noteq> []"
      by (auto simp: node_at_root)
    from fb have b_ne: "?b \<noteq> []"
      by (auto simp: node_at_root)
    have w1_nodes: "node_at (files w1) p
        = (if p = ?b then Some (File f) else if p = item then None else node_at fs1 p)" for p
      using a_ne b_ne by (auto simp: f1 node_at_update node_at_delete node_at_root)
    have kept: "node_at (files w1) p = node_at (files w) p"
      if "node_at (files w) p \<noteq> None" and "p \<noteq> item" for p
    proof -
      from that(1) obtain nd where nd: "node_at (files w) p = Some nd"
        by auto
      from mkdir_parents_keeps [OF mk nd] have "node_at fs1 p = Some nd" .
      with fb that(2) nd show ?thesis
        by (auto simp: w1_nodes)
    qed
    have items1: "\<forall>i \<in> set items. node_at (files w1) i \<noteq> None
            \<and> CHR ''/'' \<in> set i \<and> path_parent i = source"
    proof
      fix i
      assume i: "i \<in> set items"
      with fresh have "i \<noteq> item"
        by auto
      with items i kept [of i] show "node_at (files w1) i \<noteq> None
            \<and> CHR ''/'' \<in> set i \<and> path_parent i = source"
        by auto
    qed
    have hp1: "node_at (files w1) ?hp = node_at (files w) ?hp
        \<or> (node_at (files w) ?hp = None \<and> node_at (files w1) ?hp = Some Dir)"
      using mkdir_parents_node [OF mk, of ?hp] a_hp b_hp by (simp add: w1_nodes eq_commute)
    with small have small1: "\<forall>g. node_at (files w1) ?hp = Some (File g)
            \<longrightarrow> int (st_size g) < min_size_kb * 1024"
      by auto
    from Cons.IH [OF rest dist items1 small1 r_items r_dest] obtain ps
      where mvs: "moves' = moves1 @ map ?mr ps"
        and were: "\<forall>m \<in> set ps. fst m \<in> set items \<and> (\<exists>g. node_at (files w1) (fst m) = Some (File g))"
        and hp': "node_at (files w') ?hp = node_at (files w1) ?hp \<or> is_dir (files w') ?hp"
        and undo: "\<forall>u. same_but_dirs ?hp (files w') (files u)
              \<and> is_dir (files u) source \<and> (\<forall>m \<in> set ps. \<not> is_dir (files u) (fst m))
           \<longrightarrow> (\<exists>u'. restore_all u (map ?mr (rev ps)) = Inr u'
                  \<and> same_but_dirs ?hp (files w1) (files u')
                  \<and> (\<forall>p. is_dir (files u') p = is_dir (files u) p))"
      by blast
    let ?ps = "(item, ?b) # ps"
    have c1: "moves' = moves @ map ?mr ?ps"
      using mvs mv by simp
    have c2: "\<forall>m \<in> set ?ps. fst m \<in> set (item # items)
        \<and> (\<exists>g. node_at (files w) (fst m) = Some (File g))"
    proof
      fix m
      assume "m \<in> set ?ps"
      then consider "m = (item, ?b)" | "m \<in> set ps"
        by auto
      then show "fst m \<in> set (item # items) \<and> (\<exists>g. node_at (files w) (fst m) = Some (File g))"
      proof cases
        case 1
        with a show ?thesis
          by simp
      next
        case 2
        with were obtain g where in_items: "fst m \<in> set items"
          and g: "node_at (files w1) (fst m) = Some (File g)"
          by blast
        from in_items fresh have "fst m \<noteq> item"
          by auto
        moreover from items in_items have "node_at (files w) (fst m) \<noteq> None"
          by blast
        ultimately have "node_at (files w1) (fst m) = node_at (files w) (fst m)"
          by (intro kept)
        with g have "node_at (files w) (fst m) = Some (File g)"
          by simp
        with in_items show ?thesis
          by simp
      qed
    qed
    have c3: "node_at (files w') ?hp = node_at (files w) ?hp \<or> is_dir (files w') ?hp"
      using hp' hp1 by (auto simp: is_dir_def)
    have c4: "\<forall>u. same_but_dirs ?hp (files w') (files u)
              \<and> is_dir (files u) source \<and> (\<forall>m \<in> set ?ps. \<not> is_dir (files u) (fst m))
           \<longrightarrow> (\<exists>u'. restore_all u (map ?mr (rev ?ps)) = Inr u'
                  \<and> same_but_dirs ?hp (files w) (files u')
                  \<and> (\<forall>p. is_dir (files u') p = is_dir (files u) p))"
    proof (intro allI impI)
      fix u :: world
      assume u: "same_but_dirs ?hp (files w') (files u)
              \<and> is_dir (files u) source \<and> (\<forall>m \<in> set ?ps. \<not> is_dir (files u) (fst m))"
      with undo obtain u1 where r1: "restore_all u (map ?mr (rev ps)) = Inr u1"
        and rel1: "same_but_dirs ?hp (files w1) (files u1)"
        and dirs1: "\<forall>p. is_dir (files u1) p = is_dir (files u) p"
        by auto
      from u dirs1 have nd: "\<not> is_dir (files u1) item"
        by simp
      from u dirs1 item(2) have pd: "is_dir (files u1) (path_parent item)"
        by simp
      from r_dest have "resolved td"
        unfolding td by (rule resolved_target_dir)
      then have rb: "resolved ?b"
        using r_item a_ne by (rule resolved_candidate)
      from undo_step [OF a mk free f1 rel1 a_hp b_hp nd pd r_item rb]
      obtain u' where r2: "restore u1 (move_record item ?b) = Inr u'"
        and rel: "same_but_dirs ?hp (files w) (files u')"
        and dirs: "\<forall>p. is_dir (files u') p = is_dir (files u1) p"
        by blast
      from r1 r2 have "restore_all u (map ?mr (rev ?ps)) = Inr u'"
        by (simp add: restore_all_append)
      with rel dirs dirs1 show "\<exists>u'. restore_all u (map ?mr (rev ?ps)) = Inr u'
                  \<and> same_but_dirs ?hp (files w) (files u')
                  \<and> (\<forall>p. is_dir (files u') p = is_dir (files u) p)"
        by auto
    qed
    show ?thesis
      by (rule exI [of _ ?ps]) (intro conjI c1 c2 c3 c4)
  qed
qed

lemma iterdir_items:
  "distinct (iterdir fs d)"
  "\<forall>item \<in> set (iterdir fs d). node_at fs item \<noteq> None
      \<and> CHR ''/'' \<in> set item \<and> path_parent item = d"
proof -
  show "distinct (iterdir fs d)"
    by (simp add: iterdir_def)
  have "node_at fs p \<noteq> None" if "p \<in> fst ` set fs" for p
  proof -
    from that have "map_of fs p \<noteq> None"
      by (simp only: map_of_eq_None_iff not_not)
    then show ?thesis
      by (simp add: node_at_def)
  qed
  then show "\<forall>item \<in> set (iterdir fs d). node_at fs item \<noteq> None
      \<and> CHR ''/'' \<in> set item \<and> path_parent item = d"
    by (auto simp: iterdir_def)
qed

lemma append_run_result:
  assumes "append_run e source moves wl = Inr w1"
  shows "\<not> is_dir (files wl) (joinpath source METADATA_FILE)"
    and "is_dir (files wl) source"
    and "files w1 = AList.update (joinpath source METADATA_FILE)
           (File \<lparr>st_size = dumps_size e (JList (history_before
                      (node_at (files wl) (joinpath source METADATA_FILE)) @ [history_record e moves])),
                  mtime_year = clock_year e, mtime_month = clock_month e,
                  content = JsonText (JList (history_before
                      (node_at (files wl) (joinpath source METADATA_FILE)) @ [history_record e moves]))\<rparr>)
           (files wl)"
proof -
  let ?hp = "joinpath source METADATA_FILE"
  from assms obtain o_new fs' where wr: "write_text e (files wl) ?hp o_new = Inr fs'"
    and o_new: "o_new = (if path_exists (files wl) ?hp
             then
               (let o_old =
                      (case node_at (files wl) ?hp of
                         Some (File f) \<Rightarrow>
                           (case content f of JsonText j \<Rightarrow> j | Unparseable t \<Rightarrow> JList [])
                       | _ \<Rightarrow> JList [])
                in case o_old of JList xs \<Rightarrow> JList (xs @ [history_record e moves])
                   | _ \<Rightarrow> JList [o_old, history_record e moves])
             else JList [history_record e moves])"
    and w1: "w1 = emit INFO (''Saved history to '' @ ?hp) (wl\<lparr>files := fs'\<rparr>)"
    by (auto simp: append_run_def Let_def split: sum.splits)
  from wr show nd: "\<not> is_dir (files wl) ?hp"
    by (auto simp: write_text_def split: if_splits)
  from wr have "is_dir (files wl) (path_parent ?hp)"
    by (auto simp: write_text_def split: if_splits)
  then show "is_dir (files wl) source"
    by (simp add: history_parent)
  have "o_new = JList (history_before (node_at (files wl) ?hp) @ [history_record e moves])"
  proof (cases "node_at (files wl) ?hp")
    case None
    then show ?thesis
      by (simp add: o_new path_exists_def history_before_def)
  next
    case (Some n)
    show ?thesis
    proof (cases n)
      case Dir
      with Some nd show ?thesis
        by (simp add: is_dir_def)
    next
      case (File f)
      with Some show ?thesis
        by (cases "content f")
           (auto simp: o_new path_exists_def history_before_def split: json.splits)
    qed
  qed
  with wr w1 show "files w1 = AList.update ?hp
           (File \<lparr>st_size = dumps_size e (JList (history_before
                      (node_at (files wl) ?hp) @ [history_record e moves])),
                  mtime_year = clock_year e, mtime_month = clock_month e,
                  content = JsonText (JList (history_before
                      (node_at (files wl) ?hp) @ [history_record e moves]))\<rparr>)
           (files wl)"
    by (auto simp: write_text_def emit_def split: if_splits)
qed


section \<open>The classifier\<close>

lemma lower_point_same_letter:
  assumes "plain c"
  shows "lower_point n = Some (of_char c) \<longleftrightarrow> same_letter n c"
proof -
  have k: "c = CHR ''k'' \<longleftrightarrow> (of_char c :: nat) = 107"
    using of_char_eq_iff [of c "CHR ''k''", where ?'a = nat] by simp
  from assms show ?thesis
    unfolding lower_point_def same_letter_def plain_def k by auto
qed

lemma lower_caseless:
  "\<forall>c \<in> set e. plain c \<Longrightarrow> lower ext = Some (code_points e) \<longleftrightarrow> caseless_match ext e"
proof (induction ext arbitrary: e)
  case Nil
  then show ?case
    by (auto simp: lower_def code_points_def caseless_match_def)
next
  case (Cons n ext)
  show ?case
  proof (cases e)
    case Nil
    then show ?thesis
      by (auto simp: lower_def code_points_def caseless_match_def split: option.splits)
  next
    case (Cons c e')
    with Cons.prems have c: "plain c" and e': "\<forall>c \<in> set e'. plain c"
      by auto
    from Cons.IH [OF e'] have ih: "those (map lower_point ext) = Some (map of_char e')
        \<longleftrightarrow> list_all2 same_letter ext e'"
      by (simp add: lower_def code_points_def caseless_match_def)
    from lower_point_same_letter [OF c, of n] ih Cons show ?thesis
      by (auto simp: lower_def code_points_def caseless_match_def split: option.splits)
  qed
qed

lemma code_points_inj: "code_points a = code_points b \<longleftrightarrow> a = b"
  unfolding code_points_def
  by (rule inj_map_eq_map) (auto simp: inj_on_def)

lemma category_of_None:
  "category_of cs x = None \<longleftrightarrow> (\<forall>(cat, exts) \<in> set cs. x \<notin> set (map code_points exts))"
  by (induction cs x rule: category_of.induct) auto

lemma category_of_Some:
  "distinct (concat (map snd cs)) \<Longrightarrow> (cat, exts) \<in> set cs \<Longrightarrow> e \<in> set exts
     \<Longrightarrow> category_of cs (code_points e) = Some cat"
proof (induction cs)
  case Nil
  then show ?case
    by simp
next
  case (Cons entry rest)
  obtain c es where entry: "entry = (c, es)"
    by (cases entry)
  show ?case
  proof (cases "e \<in> set es")
    case True
    have "(cat, exts) \<notin> set rest"
    proof
      assume "(cat, exts) \<in> set rest"
      with Cons.prems have "e \<in> (\<Union>a \<in> set rest. set (snd a))"
        by force
      with True Cons.prems entry show False
        by auto
    qed
    with Cons.prems True entry show ?thesis
      by auto
  next
    case False
    with Cons.prems entry have "(cat, exts) \<in> set rest" and "distinct (concat (map snd rest))"
      by auto
    from Cons.IH [OF this(2) this(1) Cons.prems(3)] False entry show ?thesis
      by (auto simp: code_points_inj)
  qed
qed

lemma CATEGORIES_disjoint: "distinct (concat (map snd CATEGORIES))"
  by (simp add: CATEGORIES_def)

lemma CATEGORIES_plain:
  "(cat, exts) \<in> set CATEGORIES \<Longrightarrow> e \<in> set exts \<Longrightarrow> \<forall>c \<in> set e. plain c"
  by (auto simp: CATEGORIES_def plain_def)

text \<open>
  Claim C8. For every extension, a sequence of code points: when it is, up to
  the case of its letters, an entry of a category's extension set,
  \<open>which_category\<close> returns that category's name (the sets are disjoint, so the
  category is the only one); when it is no entry of any set, \<open>which_category\<close>
  returns \<open>None\<close>, which \<open>run_organize\<close> turns into the folder \<open>Other\<close>. The
  classifier is a total function of its argument alone.
\<close>

theorem which_category_owner:
  "(\<forall>cat exts e. (cat, exts) \<in> set CATEGORIES \<and> e \<in> set exts \<and> caseless_match ext e
       \<longrightarrow> which_category ext = Some cat)
   \<and> ((\<forall>cat exts e. (cat, exts) \<in> set CATEGORIES \<and> e \<in> set exts \<longrightarrow> \<not> caseless_match ext e)
       \<longrightarrow> which_category ext = None \<and> folder_name (which_category ext) = ''Other'')"
proof (intro conjI allI impI)
  fix cat exts e
  assume h: "(cat, exts) \<in> set CATEGORIES \<and> e \<in> set exts \<and> caseless_match ext e"
  then have "lower ext = Some (code_points e)"
    using lower_caseless [OF CATEGORIES_plain, of cat exts e ext] by simp
  moreover from h have "category_of CATEGORIES (code_points e) = Some cat"
    by (intro category_of_Some [OF CATEGORIES_disjoint, of cat exts e]) simp_all
  ultimately show "which_category ext = Some cat"
    by (simp add: which_category_def)
next
  assume none: "\<forall>cat exts e. (cat, exts) \<in> set CATEGORIES \<and> e \<in> set exts
      \<longrightarrow> \<not> caseless_match ext e"
  have "which_category ext = None"
  proof (cases "lower ext")
    case None
    then show ?thesis
      by (simp add: which_category_def)
  next
    case (Some l)
    have "\<forall>(cat, exts) \<in> set CATEGORIES. l \<notin> set (map code_points exts)"
    proof (intro ballI, clarify)
      fix cat exts
      assume m: "(cat, exts) \<in> set CATEGORIES" and l: "l \<in> set (map code_points exts)"
      then obtain e where e: "e \<in> set exts" and le: "l = code_points e"
        by auto
      with Some lower_caseless [OF CATEGORIES_plain [OF m e], of ext] have "caseless_match ext e"
        by simp
      with none m e show False
        by blast
    qed
    with Some show ?thesis
      by (simp add: which_category_def category_of_None)
  qed
  then show "which_category ext = None" "folder_name (which_category ext) = ''Other''"
    by (simp_all add: folder_name_def)
qed

text \<open>
  The theorem at \<open>.PNG\<close>, at \<open>.mKv\<close> written with the KELVIN SIGN, at \<open>.xyz\<close>,
  and at \<open>.zIp\<close> written with \<open>U+0130\<close>, whose lower-case form is not \<open>i\<close> alone.
\<close>

theorem which_category_owner_witness:
  "caseless_match (code_points ''.PNG'') ''.png''
   \<and> which_category (code_points ''.PNG'') = Some ''Images''
   \<and> caseless_match [46, 109, 8490, 118] ''.mkv''
   \<and> which_category [46, 109, 8490, 118] = Some ''Video''
   \<and> which_category (code_points ''.xyz'') = None
   \<and> folder_name (which_category (code_points ''.xyz'')) = ''Other''
   \<and> which_category [46, 122, 304, 112] = None"
proof -
  have a: "(''Images'', [''.png'', ''.jpg'', ''.jpeg'', ''.gif'', ''.bmp'', ''.svg'', ''.webp''])
      \<in> set CATEGORIES
    \<and> ''.png'' \<in> set [''.png'', ''.jpg'', ''.jpeg'', ''.gif'', ''.bmp'', ''.svg'', ''.webp'']
    \<and> caseless_match (code_points ''.PNG'') ''.png''"
    by (simp add: CATEGORIES_def caseless_match_def same_letter_def code_points_def)
  have b: "(''Video'', [''.mp4'', ''.mkv'', ''.mov'', ''.avi'']) \<in> set CATEGORIES
    \<and> ''.mkv'' \<in> set [''.mp4'', ''.mkv'', ''.mov'', ''.avi'']
    \<and> caseless_match [46, 109, 8490, 118] ''.mkv''"
    by (simp add: CATEGORIES_def caseless_match_def same_letter_def)
  have c: "\<forall>cat exts e. (cat, exts) \<in> set CATEGORIES \<and> e \<in> set exts
      \<longrightarrow> \<not> caseless_match (code_points ''.xyz'') e"
    by (auto simp: CATEGORIES_def caseless_match_def same_letter_def code_points_def)
  have d: "\<forall>cat exts e. (cat, exts) \<in> set CATEGORIES \<and> e \<in> set exts
      \<longrightarrow> \<not> caseless_match [46, 122, 304, 112] e"
    by (auto simp: CATEGORIES_def caseless_match_def same_letter_def)
  from which_category_owner [of "code_points ''.PNG''"] a
    which_category_owner [of "[46, 109, 8490, 118]"] b
    which_category_owner [of "code_points ''.xyz''"] c
    which_category_owner [of "[46, 122, 304, 112]"] d
  show ?thesis
    by blast
qed

section \<open>Collisions in a live run\<close>

text \<open>
  Claim C6. In a live run, for a file that passes the size filter and whose
  target directory can be made: the file lands at \<open>target/name.ext\<close> when that
  path is free, and otherwise at \<open>target/name_N.ext\<close> for the first \<open>N \<ge> 1\<close> whose
  path is free (every smaller number is taken); the path is free in the file
  system the move starts from, so the move replaces nothing; and the move record
  appended to the list has the file's path before the move under \<open>from\<close> and the
  path the file was moved to under \<open>to\<close>, not the first candidate.
\<close>

theorem organize_item_collision:
  assumes item: "node_at (files w) item = Some (File f)"
    and size: "\<not> int (st_size f) < min_size_kb * 1024"
    and mk: "mkdir_parents (files w) (target_dir dest_parent by_date item f) = Inr fs1"
  shows "\<exists>n final.
      final = (if n = 0 then joinpath (target_dir dest_parent by_date item f) (path_name item)
               else joinpath (target_dir dest_parent by_date item f)
                      (path_stem item @ ''_'' @ str_nat n @ path_suffix item))
    \<and> (0 < n \<longleftrightarrow>
         path_exists fs1 (joinpath (target_dir dest_parent by_date item f) (path_name item)))
    \<and> (\<forall>k. 0 < k \<and> k < n \<longrightarrow>
         path_exists fs1 (joinpath (target_dir dest_parent by_date item f)
                            (path_stem item @ ''_'' @ str_nat k @ path_suffix item)))
    \<and> \<not> path_exists fs1 final
    \<and> organize_item dest_parent False by_date min_size_kb (moves, w) item
        = Inr (moves @ [JObj [(''from'', JStr item), (''to'', JStr final)]],
               emit INFO (''Moved '' @ path_name item @ '' -> '' @ final)
                 (w\<lparr>files := AList.update final (File f) (AList.delete item fs1)\<rparr>))"
proof -
  let ?d = "target_dir dest_parent by_date item f"
  let ?target = "joinpath ?d (path_name item)"
  from organize_item_live [OF item size mk, of moves]
  obtain n where run: "organize_item dest_parent False by_date min_size_kb (moves, w) item
        = Inr (moves @ [move_record item (candidate ?target n)],
               emit INFO (''Moved '' @ path_name item @ '' -> '' @ candidate ?target n)
                 (w\<lparr>files := AList.update (candidate ?target n) (File f) (AList.delete item fs1)\<rparr>))"
    and taken: "\<forall>k<n. path_exists fs1 (candidate ?target k)"
    and free: "\<not> path_exists fs1 (candidate ?target n)"
    by blast
  have first: "0 < n \<longleftrightarrow> path_exists fs1 ?target"
  proof
    assume "0 < n"
    with taken have "path_exists fs1 (candidate ?target 0)"
      by blast
    then show "path_exists fs1 ?target"
      by (simp add: candidate_def)
  next
    assume "path_exists fs1 ?target"
    with free show "0 < n"
      by (cases n) (auto simp: candidate_def)
  qed
  have earlier: "\<forall>k. 0 < k \<and> k < n \<longrightarrow>
      path_exists fs1 (joinpath ?d (path_stem item @ ''_'' @ str_nat k @ path_suffix item))"
  proof (intro allI impI)
    fix k
    assume k: "0 < k \<and> k < n"
    with taken have "path_exists fs1 (candidate ?target k)"
      by blast
    with k show "path_exists fs1 (joinpath ?d (path_stem item @ ''_'' @ str_nat k @ path_suffix item))"
      by (simp add: candidate_target)
  qed
  show ?thesis
    using first earlier free run
    by (intro exI [of _ n] exI [of _ "candidate ?target n"])
       (simp add: candidate_target move_record_def)
qed

theorem organize_item_collision_witness:
  "organize_item ''/d'' False False 0 ([], desk_collision) ''/d/b.txt''
     = Inr ([JObj [(''from'', JStr ''/d/b.txt''), (''to'', JStr ''/d/Documents/b_2.txt'')]],
            emit INFO ''Moved b.txt -> /d/Documents/b_2.txt''
              (desk_collision\<lparr>files :=
                 [(''/d'', Dir), (''/d/Documents'', Dir),
                  (''/d/Documents/b.txt'', plain_file 7 ''first''),
                  (''/d/Documents/b_1.txt'', plain_file 8 ''second''),
                  (''/d/Documents/b_2.txt'', plain_file 10 ''new'')]\<rparr>))
   \<and> path_exists (files desk_collision) ''/d/Documents/b.txt''
   \<and> path_exists (files desk_collision) ''/d/Documents/b_1.txt''
   \<and> \<not> path_exists (files desk_collision) ''/d/Documents/b_2.txt''"
proof -
  define f where "f = \<lparr>st_size = 10, mtime_year = 2024, mtime_month = 3, content = Unparseable ''new''\<rparr>"
  have item: "node_at (files desk_collision) ''/d/b.txt'' = Some (File f)"
    unfolding f_def by code_simp
  have size: "\<not> int (st_size f) < 0 * 1024"
    unfolding f_def by simp
  have mk: "mkdir_parents (files desk_collision) (target_dir ''/d'' False ''/d/b.txt'' f)
      = Inr (files desk_collision)"
    unfolding f_def by code_simp
  from organize_item_collision [OF item size mk, of "[]"]
  obtain n :: nat and final where
    "organize_item ''/d'' False False 0 ([], desk_collision) ''/d/b.txt''
        = Inr ([] @ [JObj [(''from'', JStr ''/d/b.txt''), (''to'', JStr final)]],
               emit INFO (''Moved '' @ path_name ''/d/b.txt'' @ '' -> '' @ final)
                 (desk_collision\<lparr>files := AList.update final (File f)
                    (AList.delete ''/d/b.txt'' (files desk_collision))\<rparr>))"
    by blast
  moreover have "organize_item ''/d'' False False 0 ([], desk_collision) ''/d/b.txt''
     = Inr ([JObj [(''from'', JStr ''/d/b.txt''), (''to'', JStr ''/d/Documents/b_2.txt'')]],
            emit INFO ''Moved b.txt -> /d/Documents/b_2.txt''
              (desk_collision\<lparr>files :=
                 [(''/d'', Dir), (''/d/Documents'', Dir),
                  (''/d/Documents/b.txt'', plain_file 7 ''first''),
                  (''/d/Documents/b_1.txt'', plain_file 8 ''second''),
                  (''/d/Documents/b_2.txt'', plain_file 10 ''new'')]\<rparr>))"
    by code_simp
  moreover have "path_exists (files desk_collision) ''/d/Documents/b.txt''
   \<and> path_exists (files desk_collision) ''/d/Documents/b_1.txt''
   \<and> \<not> path_exists (files desk_collision) ''/d/Documents/b_2.txt''"
    by code_simp
  ultimately show ?thesis
    by blast
qed

section \<open>What a dry run touches\<close>

text \<open>
  Claim C2 says that a dry run changes nothing in the file system. The code makes
  the target directory before it looks at \<open>dry_run\<close> (\<open>target_parent.mkdir\<close> in
  \<open>run_organize\<close>, \<open>dest.parent.mkdir\<close> in \<open>safe_move\<close>): a dry run over a desktop
  that holds one text file creates the directory \<open>Documents\<close>, which was not
  there before. The file stays where it is and no history file is written.
\<close>

theorem dry_run_creates_directory:
  "\<not> path_exists (files desk_fresh) ''/d/Documents''
   \<and> run_organize clock ''/d'' None True False 0 desk_fresh
       = Inr \<lparr>files = files desk_fresh @ [(''/d/Documents'', Dir)],
              log = [(INFO, ''DRY: would move /d/a.txt -> /d/Documents/a.txt''),
                     (INFO, ''Dry-run completed. No changes saved.'')]\<rparr>"
  by code_simp

section \<open>The history file among the files of the source directory\<close>

text \<open>
  Claim C3 says that the history file is never moved or recorded. The test
  \<open>item.name == METADATA_FILE\<close> stands inside the \<open>item.is_dir()\<close> branch, where a
  regular file never arrives. A live run with the default arguments over a
  desktop that holds the history file of an earlier run moves that file to
  \<open>Other/.organize_history.json\<close>, records the move, and starts a new history
  that holds the new run only.
\<close>

theorem history_file_is_moved:
  "node_at (files desk_second_run) ''/d/.organize_history.json''
     = Some (json_file 120 (JList [earlier_run]))
   \<and> run_organize clock ''/d'' None False False 0 desk_second_run = Inr desk_after_second_run
   \<and> node_at (files desk_after_second_run) ''/d/Other/.organize_history.json''
     = Some (json_file 120 (JList [earlier_run]))"
  by code_simp

text \<open>
  A consequence of the same defect for an undo: the history file of the earlier
  run is one of the moved files; the undo moves it back over the new history
  and then writes the popped list, which is empty, over it. After the run and
  the undo the file at the history path holds \<open>[]\<close> and the record of the
  earlier run is gone.
\<close>

lemma undo_after_second_run_loses_history:
  "run_organize clock ''/d'' None False False 0 desk_second_run = Inr desk_after_second_run
   \<and> run_undo clock ''/d'' desk_after_second_run
       = Inr \<lparr>files = [(''/d'', Dir), (''/d/Documents'', Dir),
                (''/d/Documents/old.txt'', plain_file 5 ''old''),
                (''/d/Other'', Dir),
                (''/d/.organize_history.json'',
                 File \<lparr>st_size = 64, mtime_year = 2024, mtime_month = 3,
                       content = JsonText (JList [])\<rparr>),
                (''/d/a.txt'', plain_file 10 ''notes'')],
              log = log desk_after_second_run @
                [(INFO, ''Restored .organize_history.json -> /d/.organize_history.json''),
                 (INFO, ''Restored a.txt -> /d/a.txt''),
                 (INFO, ''Undo complete.'')]\<rparr>
   \<and> node_at (files desk_second_run) ''/d/.organize_history.json''
       = Some (json_file 120 (JList [earlier_run]))"
  by code_simp

section \<open>Undo on a history that cannot be used\<close>

text \<open>
  Claim C5 says that an undo on a history whose content is not a non-empty
  sequence reports the condition and returns. \<open>run_undo\<close> calls \<open>json.loads\<close>
  outside any \<open>try\<close> (the same call in \<open>run_organize\<close> stands inside one): on a
  history file that is not JSON the exception leaves \<open>run_undo\<close>.
\<close>

theorem undo_on_garbled_history_raises:
  "run_undo clock ''/d'' desk_garbled = Inl JSONDecodeError"
  by code_simp

section \<open>The two shapes of the history file\<close>

text \<open>
  Claim C9. When the history file that a live run finds at the end of its loop
  is not JSON, the run writes a history that holds its own record only: what the
  file held before is dropped. The run returns normally and every line it logs
  is an \<open>INFO\<close> line.
\<close>

theorem unparseable_history_replaced:
  assumes dir: "is_dir (files w) source"
    and loop: "organize_loop (case dest_parent of Some d \<Rightarrow> d | None \<Rightarrow> source)
                 False by_date min_size_kb ([], w) (iterdir (files w) source) = Inr (moves, w1)"
    and hist: "node_at (files w1) (joinpath source METADATA_FILE) = Some (File f)"
    and bad: "content f = Unparseable t"
  shows "\<exists>w2 extra.
      run_organize e source dest_parent False by_date min_size_kb w = Inr w2
    \<and> node_at (files w2) (joinpath source METADATA_FILE)
        = Some (File \<lparr>st_size = dumps_size e (JList [history_record e moves]),
                       mtime_year = clock_year e, mtime_month = clock_month e,
                       content = JsonText (JList [history_record e moves])\<rparr>)
    \<and> log w2 = log w @ extra \<and> (\<forall>entry \<in> set extra. fst entry = INFO)"
proof -
  note live = run_organize_live [OF dir loop]
  from live(3) obtain x where x: "log w1 = log w @ x" "\<forall>entry \<in> set x. fst entry = INFO"
    by blast
  let ?hp = "joinpath source METADATA_FILE"
  let ?new = "File \<lparr>st_size = dumps_size e (JList [history_record e moves]),
                       mtime_year = clock_year e, mtime_month = clock_month e,
                       content = JsonText (JList [history_record e moves])\<rparr>"
  let ?w2 = "emit INFO (''Saved history to '' @ ?hp) (w1\<lparr>files := AList.update ?hp ?new (files w1)\<rparr>)"
  from append_run_existing [OF live(2) hist, of e moves] bad live(1)
  have run: "run_organize e source dest_parent False by_date min_size_kb w = Inr ?w2"
    by simp
  have "?hp \<noteq> []"
    by (simp add: joinpath_def)
  then have "node_at (files ?w2) ?hp = Some ?new"
    by (simp add: emit_def node_at_update)
  moreover from x have "log ?w2 = log w @ (x @ [(INFO, ''Saved history to '' @ ?hp)])"
    and "\<forall>entry \<in> set (x @ [(INFO, ''Saved history to '' @ ?hp)]). fst entry = INFO"
    by (simp_all add: emit_def)
  ultimately show ?thesis
    using run by blast
qed

theorem unparseable_history_replaced_witness:
  "is_dir (files desk_garbled) ''/d''
   \<and> organize_loop ''/d'' False False 1 ([], desk_garbled) (iterdir (files desk_garbled) ''/d'')
       = Inr ([move_record ''/d/a.txt'' ''/d/Documents/a.txt''], desk_garbled_sorted)
   \<and> node_at (files desk_garbled_sorted) (joinpath ''/d'' METADATA_FILE)
       = Some (plain_file 9 ''not json!'')
   \<and> (\<exists>w2 extra.
        run_organize clock ''/d'' None False False 1 desk_garbled = Inr w2
      \<and> node_at (files w2) (joinpath ''/d'' METADATA_FILE)
          = Some (File \<lparr>st_size = 64, mtime_year = 2024, mtime_month = 3,
                content = JsonText (JList [history_record clock
                                             [move_record ''/d/a.txt'' ''/d/Documents/a.txt'']])\<rparr>)
      \<and> log w2 = log desk_garbled @ extra \<and> (\<forall>entry \<in> set extra. fst entry = INFO))"
proof -
  define f where "f = \<lparr>st_size = 9, mtime_year = 2024, mtime_month = 3,
    content = Unparseable ''not json!''\<rparr>"
  have dir: "is_dir (files desk_garbled) ''/d''"
    by code_simp
  have loop: "organize_loop (case None of Some d \<Rightarrow> d | None \<Rightarrow> ''/d'') False False 1
      ([], desk_garbled) (iterdir (files desk_garbled) ''/d'')
       = Inr ([move_record ''/d/a.txt'' ''/d/Documents/a.txt''], desk_garbled_sorted)"
    by code_simp
  have hist: "node_at (files desk_garbled_sorted) (joinpath ''/d'' METADATA_FILE) = Some (File f)"
    unfolding f_def by code_simp
  have bad: "content f = Unparseable ''not json!''"
    by (simp add: f_def)
  from unparseable_history_replaced [OF dir loop hist bad, of clock]
  have "\<exists>w2 extra.
        run_organize clock ''/d'' None False False 1 desk_garbled = Inr w2
      \<and> node_at (files w2) (joinpath ''/d'' METADATA_FILE)
          = Some (File \<lparr>st_size = 64, mtime_year = 2024, mtime_month = 3,
                content = JsonText (JList [history_record clock
                                             [move_record ''/d/a.txt'' ''/d/Documents/a.txt'']])\<rparr>)
      \<and> log w2 = log desk_garbled @ extra \<and> (\<forall>entry \<in> set extra. fst entry = INFO)"
    by (simp add: clock_def)
  with dir loop hist show ?thesis
    by (simp add: f_def plain_file_def)
qed

text \<open>
  Claim C7 says that every operation that reads the history accepts a single
  record as well as a list. \<open>run_undo\<close> does not: by its test
  \<open>not isinstance(data, list)\<close> it reports a single record as corrupt and
  restores nothing.
\<close>

theorem undo_rejects_single_record:
  "run_undo clock ''/d'' desk_legacy
     = Inr (desk_legacy\<lparr>log := [(ERROR, ''History file corrupt or empty.'')]\<rparr>)"
  by code_simp

text \<open>
  Claim C7, amended. The write at the end of a live run accepts both shapes: a
  list gets the new record appended, and any other JSON value, a single record
  above all, becomes the first element of a two-element list. \<open>run_undo\<close>
  accepts a list only: on a history that is JSON but not a list it logs
  \<open>History file corrupt or empty.\<close> and changes nothing.
\<close>

theorem history_shapes:
  "(is_dir (files w) source
      \<and> organize_loop (case dest_parent of Some d \<Rightarrow> d | None \<Rightarrow> source)
           False by_date min_size_kb ([], w) (iterdir (files w) source) = Inr (moves, w1)
      \<and> node_at (files w1) (joinpath source METADATA_FILE) = Some (File f)
      \<and> content f = JsonText j
    \<longrightarrow> (\<exists>w2 g. run_organize e source dest_parent False by_date min_size_kb w = Inr w2
          \<and> node_at (files w2) (joinpath source METADATA_FILE) = Some (File g)
          \<and> content g = JsonText (JList ((case j of JList xs \<Rightarrow> xs | _ \<Rightarrow> [j])
                                            @ [history_record e moves]))))
   \<and> (node_at (files u) (joinpath source METADATA_FILE) = Some (File h)
      \<and> content h = JsonText j \<and> (\<forall>xs. j \<noteq> JList xs)
    \<longrightarrow> run_undo e source u = Inr (emit ERROR ''History file corrupt or empty.'' u))"
proof (intro conjI impI)
  assume a: "is_dir (files w) source
      \<and> organize_loop (case dest_parent of Some d \<Rightarrow> d | None \<Rightarrow> source)
           False by_date min_size_kb ([], w) (iterdir (files w) source) = Inr (moves, w1)
      \<and> node_at (files w1) (joinpath source METADATA_FILE) = Some (File f)
      \<and> content f = JsonText j"
  let ?hp = "joinpath source METADATA_FILE"
  from a have dir: "is_dir (files w) source"
    and loop: "organize_loop (case dest_parent of Some d \<Rightarrow> d | None \<Rightarrow> source)
           False by_date min_size_kb ([], w) (iterdir (files w) source) = Inr (moves, w1)"
    and hist: "node_at (files w1) ?hp = Some (File f)" and js: "content f = JsonText j"
    by simp_all
  note live = run_organize_live [OF dir loop]
  let ?o = "case j of JList xs \<Rightarrow> JList (xs @ [history_record e moves])
            | _ \<Rightarrow> JList [j, history_record e moves]"
  let ?g = "\<lparr>st_size = dumps_size e ?o, mtime_year = clock_year e, mtime_month = clock_month e,
             content = JsonText ?o\<rparr>"
  let ?w2 = "emit INFO (''Saved history to '' @ ?hp) (w1\<lparr>files := AList.update ?hp (File ?g) (files w1)\<rparr>)"
  from append_run_existing [OF live(2) hist, of e moves] js live(1)
  have run: "run_organize e source dest_parent False by_date min_size_kb w = Inr ?w2"
    by (simp split: json.splits)
  have "?hp \<noteq> []"
    by (simp add: joinpath_def)
  then have "node_at (files ?w2) ?hp = Some (File ?g)"
    by (simp add: emit_def node_at_update)
  moreover have "content ?g = JsonText (JList ((case j of JList xs \<Rightarrow> xs | _ \<Rightarrow> [j])
                                            @ [history_record e moves]))"
    by (simp split: json.splits)
  ultimately show "\<exists>w2 g. run_organize e source dest_parent False by_date min_size_kb w = Inr w2
          \<and> node_at (files w2) ?hp = Some (File g)
          \<and> content g = JsonText (JList ((case j of JList xs \<Rightarrow> xs | _ \<Rightarrow> [j])
                                            @ [history_record e moves]))"
    using run by blast
next
  assume "node_at (files u) (joinpath source METADATA_FILE) = Some (File h)
      \<and> content h = JsonText j \<and> (\<forall>xs. j \<noteq> JList xs)"
  then show "run_undo e source u = Inr (emit ERROR ''History file corrupt or empty.'' u)"
    by (cases j) (simp_all add: run_undo_def path_exists_def)
qed

theorem history_shapes_witness:
  "is_dir (files desk_legacy) ''/d''
   \<and> organize_loop ''/d'' False False 1 ([], desk_legacy) (iterdir (files desk_legacy) ''/d'')
       = Inr ([move_record ''/d/a.txt'' ''/d/Documents/a.txt''], desk_legacy_sorted)
   \<and> node_at (files desk_legacy_sorted) (joinpath ''/d'' METADATA_FILE)
       = Some (json_file 100 earlier_run)
   \<and> (\<exists>w2 g. run_organize clock ''/d'' None False False 1 desk_legacy = Inr w2
        \<and> node_at (files w2) (joinpath ''/d'' METADATA_FILE) = Some (File g)
        \<and> content g = JsonText (JList [earlier_run,
             history_record clock [move_record ''/d/a.txt'' ''/d/Documents/a.txt'']]))
   \<and> node_at (files desk_legacy) (joinpath ''/d'' METADATA_FILE)
       = Some (json_file 100 earlier_run)
   \<and> run_undo clock ''/d'' desk_legacy
       = Inr (emit ERROR ''History file corrupt or empty.'' desk_legacy)"
proof -
  define h where "h = \<lparr>st_size = 100, mtime_year = 2024, mtime_month = 2,
    content = JsonText earlier_run\<rparr>"
  have dir: "is_dir (files desk_legacy) ''/d''"
    by code_simp
  have loop: "organize_loop (case None of Some d \<Rightarrow> d | None \<Rightarrow> ''/d'') False False 1
      ([], desk_legacy) (iterdir (files desk_legacy) ''/d'')
       = Inr ([move_record ''/d/a.txt'' ''/d/Documents/a.txt''], desk_legacy_sorted)"
    by code_simp
  have hist: "node_at (files desk_legacy_sorted) (joinpath ''/d'' METADATA_FILE) = Some (File h)"
    unfolding h_def by code_simp
  have hist0: "node_at (files desk_legacy) (joinpath ''/d'' METADATA_FILE) = Some (File h)"
    unfolding h_def by code_simp
  have js: "content h = JsonText earlier_run"
    by (simp add: h_def)
  have shape: "\<forall>xs. earlier_run \<noteq> JList xs"
    by (simp add: earlier_run_def)
  from history_shapes [of desk_legacy "''/d''" None False 1 "[move_record ''/d/a.txt'' ''/d/Documents/a.txt'']"
      desk_legacy_sorted h earlier_run clock desk_legacy h]
    dir loop hist hist0 js shape
  have "(\<exists>w2 g. run_organize clock ''/d'' None False False 1 desk_legacy = Inr w2
        \<and> node_at (files w2) (joinpath ''/d'' METADATA_FILE) = Some (File g)
        \<and> content g = JsonText (JList [earlier_run,
             history_record clock [move_record ''/d/a.txt'' ''/d/Documents/a.txt'']]))
     \<and> run_undo clock ''/d'' desk_legacy
       = Inr (emit ERROR ''History file corrupt or empty.'' desk_legacy)"
    by (simp add: earlier_run_def)
  with dir loop hist hist0 show ?thesis
    by (simp add: h_def json_file_def)
qed

section \<open>Undo of the last run\<close>





section \<open>Undo over a file that has come back\<close>

text \<open>
  Claim C10. \<open>run_undo\<close> looks at the destination path of a move only. When the
  turn of a move comes and regular files stand both at its destination path
  and at its source path (in a directory that is there), the file from the
  destination path is moved over the one at the source path: that file is
  gone, nothing is logged but the line of a restoration, no other path
  changes, and the undo goes on. When the move is the first of the record, so
  that no move is replayed after it, and the source directory is there, the
  history path is no directory and the source path is not the history path,
  \<open>run_undo\<close> returns with the file from the destination path at the source
  path. A forward move by \<open>safe_move\<close> leaves every other entry of the file
  system as it was.
\<close>

theorem undo_overwrites:
  assumes hist: "node_at (files w) (joinpath source METADATA_FILE) = Some (File h)"
    and shape: "content h = JsonText (JList (rs @ [JObj kvs]))"
    and moves: "map_of kvs ''moves''
        = Some (JList (earlier @ [JObj [(''from'', JStr a), (''to'', JStr b)]] @ later))"
    and turn: "restore_all w (rev later) = Inr u"
    and dest: "node_at (files u) (Path_of b) = Some (File f)"
    and src: "node_at (files u) (Path_of a) = Some (File g)"
    and parent: "is_dir (files u) (path_parent (Path_of a))"
  shows "\<exists>v. run_undo e source w = undo_from e source rs (rev earlier) v
      \<and> node_at (files v) (Path_of a) = Some (File f)
      \<and> (Path_of b \<noteq> Path_of a \<longrightarrow> node_at (files v) (Path_of b) = None)
      \<and> (\<forall>p. p \<noteq> Path_of a \<and> p \<noteq> Path_of b \<longrightarrow> node_at (files v) p = node_at (files u) p)
      \<and> log v = log u @ [(INFO, ''Restored '' @ path_name (Path_of b) @ '' -> ''
                                   @ str_path (Path_of a))]
      \<and> (earlier = [] \<and> is_dir (files u) source
            \<and> \<not> is_dir (files u) (joinpath source METADATA_FILE)
            \<and> Path_of a \<noteq> joinpath source METADATA_FILE
          \<longrightarrow> (\<exists>w'. run_undo e source w = Inr w'
                 \<and> node_at (files w') (Path_of a) = Some (File f)))
      \<and> (\<forall>x item held target r x' p n.
            node_at (files x) item = Some (File held) \<and> safe_move x item target False = Inr (r, x')
            \<and> p \<noteq> item \<and> node_at (files x) p = Some n
            \<longrightarrow> node_at (files x') p = Some n)"
proof -
  let ?hp = "joinpath source METADATA_FILE"
  let ?a = "Path_of a" and ?b = "Path_of b"
  let ?fs' = "AList.update ?a (File f) (AList.delete ?b (files u))"
  let ?v = "emit INFO (''Restored '' @ path_name ?b @ '' -> '' @ str_path ?a) (u\<lparr>files := ?fs'\<rparr>)"
  from parent have mk: "mkdir_parents (files u) (path_parent ?a) = Inr (files u)"
    by (rule mkdir_parents_existing)
  from src have nd: "\<not> is_dir (files u) ?a"
    by (simp add: is_dir_def)
  from restore_file [OF dest mk nd]
  have "restore u (JObj [(''from'', JStr a), (''to'', JStr b)]) = Inr ?v"
    by (simp add: move_record_def)
  with run_undo_from [OF hist shape moves, of e] undo_from_turn [OF turn, of e source rs earlier]
  have run: "run_undo e source w = undo_from e source rs (rev earlier) ?v"
    by simp
  from src have a_ne: "?a \<noteq> []"
    by (auto simp: node_at_root)
  from dest have b_ne: "?b \<noteq> []"
    by (auto simp: node_at_root)
  have nodes: "node_at (files ?v) p
      = (if p = ?a then Some (File f) else if p = ?b then None else node_at (files u) p)" for p
    using a_ne b_ne by (auto simp: emit_def node_at_update node_at_delete node_at_root)
  have at_a: "node_at (files ?v) ?a = Some (File f)"
    using nodes [of ?a] by simp
  have at_b: "?b \<noteq> ?a \<longrightarrow> node_at (files ?v) ?b = None"
    using nodes [of ?b] by simp
  have rest: "\<forall>p. p \<noteq> ?a \<and> p \<noteq> ?b \<longrightarrow> node_at (files ?v) p = node_at (files u) p"
    using nodes by simp
  have lg: "log ?v = log u @ [(INFO, ''Restored '' @ path_name ?b @ '' -> '' @ str_path ?a)]"
    by (simp add: emit_def)
  have last: "earlier = [] \<and> is_dir (files u) source \<and> \<not> is_dir (files u) ?hp \<and> ?a \<noteq> ?hp
          \<longrightarrow> (\<exists>w'. run_undo e source w = Inr w' \<and> node_at (files w') ?a = Some (File f))"
  proof (intro impI, elim conjE)
    assume first: "earlier = []" and dir: "is_dir (files u) source"
      and hp: "\<not> is_dir (files u) ?hp" and ne: "?a \<noteq> ?hp"
    from hp src dest have "\<not> is_dir (files ?v) ?hp"
      using nodes [of ?hp] by (auto simp: is_dir_def)
    moreover from dir src dest have "is_dir (files ?v) source"
      using nodes [of source] by (auto simp: is_dir_def)
    then have "is_dir (files ?v) (path_parent ?hp)"
      by (simp add: history_parent)
    ultimately have wr: "write_text e (files ?v) ?hp (JList rs)
        = Inr (AList.update ?hp
             (File \<lparr>st_size = dumps_size e (JList rs), mtime_year = clock_year e,
                    mtime_month = clock_month e, content = JsonText (JList rs)\<rparr>) (files ?v))"
      by (rule write_text_file)
    let ?w' = "emit INFO ''Undo complete.'' (?v\<lparr>files := AList.update ?hp
             (File \<lparr>st_size = dumps_size e (JList rs), mtime_year = clock_year e,
                    mtime_month = clock_month e, content = JsonText (JList rs)\<rparr>) (files ?v)\<rparr>)"
    from run first wr have "run_undo e source w = Inr ?w'"
      by (simp add: undo_from_def)
    moreover from ne a_ne at_a have "node_at (files ?w') ?a = Some (File f)"
      by (simp add: emit_def node_at_update)
    ultimately show "\<exists>w'. run_undo e source w = Inr w' \<and> node_at (files w') ?a = Some (File f)"
      by blast
  qed
  have fwd: "\<forall>x item held target r x' p n.
            node_at (files x) item = Some (File held) \<and> safe_move x item target False = Inr (r, x')
            \<and> p \<noteq> item \<and> node_at (files x) p = Some n
            \<longrightarrow> node_at (files x') p = Some n"
    using safe_move_keeps by blast
  show ?thesis
    by (rule exI [of _ ?v]) (intro conjI run at_a at_b rest lg last fwd)
qed

text \<open>
  The theorem on \<open>desk_refilled\<close>: the undo puts the notes back at \<open>/d/a.txt\<close>,
  and the file that had appeared there is in no place afterwards; a forward move
  of that file to \<open>Documents\<close> takes the name \<open>a_1.txt\<close> and leaves the notes.
\<close>

theorem undo_overwrites_witness:
  "node_at (files desk_refilled) (Path_of ''/d/Documents/a.txt'') = Some (plain_file 10 ''notes'')
   \<and> node_at (files desk_refilled) (Path_of ''/d/a.txt'') = Some (plain_file 3 ''new'')
   \<and> is_dir (files desk_refilled) (path_parent (Path_of ''/d/a.txt''))
   \<and> (\<exists>w'. run_undo clock ''/d'' desk_refilled = Inr w'
        \<and> node_at (files w') (Path_of ''/d/a.txt'') = Some (plain_file 10 ''notes''))
   \<and> run_undo clock ''/d'' desk_refilled
       = Inr \<lparr>files = [(''/d'', Dir), (''/d/Documents'', Dir),
                (''/d/a.txt'', plain_file 10 ''notes''),
                (''/d/.organize_history.json'',
                 File \<lparr>st_size = 64, mtime_year = 2024, mtime_month = 3,
                       content = JsonText (JList [earlier_run])\<rparr>)],
              log = [(INFO, ''Restored a.txt -> /d/a.txt''), (INFO, ''Undo complete.'')]\<rparr>
   \<and> (\<exists>x'. safe_move desk_refilled ''/d/a.txt'' ''/d/Documents/a.txt'' False
            = Inr (Some ''/d/Documents/a_1.txt'', x')
        \<and> node_at (files x') ''/d/Documents/a.txt'' = Some (plain_file 10 ''notes''))"
proof -
  define h where "h = \<lparr>st_size = 200, mtime_year = 2024, mtime_month = 2,
    content = JsonText (JList [earlier_run, single_run])\<rparr>"
  define kvs where "kvs = [(''timestamp'', JStr ''2024-03-05T10:00:00''),
    (''moves'', JList [move_record ''/d/a.txt'' ''/d/Documents/a.txt''])]"
  define f where "f = \<lparr>st_size = 10, mtime_year = 2024, mtime_month = 3,
    content = Unparseable ''notes''\<rparr>"
  define g where "g = \<lparr>st_size = 3, mtime_year = 2024, mtime_month = 3,
    content = Unparseable ''new''\<rparr>"
  define x' where "x' = \<lparr>files = [(''/d'', Dir), (''/d/Documents'', Dir),
      (''/d/Documents/a.txt'', File f),
      (''/d/.organize_history.json'', File h),
      (''/d/Documents/a_1.txt'', File g)],
    log = [(INFO, ''Moved a.txt -> /d/Documents/a_1.txt'')]\<rparr>"
  have hist: "node_at (files desk_refilled) (joinpath ''/d'' METADATA_FILE) = Some (File h)"
    unfolding h_def by code_simp
  have shape: "content h = JsonText (JList ([earlier_run] @ [JObj kvs]))"
    by (simp add: h_def kvs_def single_run_def)
  have moves: "map_of kvs ''moves''
      = Some (JList ([] @ [JObj [(''from'', JStr ''/d/a.txt''), (''to'', JStr ''/d/Documents/a.txt'')]] @ []))"
    by (simp add: kvs_def move_record_def)
  have turn: "restore_all desk_refilled (rev []) = Inr desk_refilled"
    by simp
  have dest: "node_at (files desk_refilled) (Path_of ''/d/Documents/a.txt'') = Some (File f)"
    unfolding f_def by code_simp
  have src: "node_at (files desk_refilled) (Path_of ''/d/a.txt'') = Some (File g)"
    unfolding g_def by code_simp
  have parent: "is_dir (files desk_refilled) (path_parent (Path_of ''/d/a.txt''))"
    by code_simp
  have side: "[] = ([] :: json list) \<and> is_dir (files desk_refilled) ''/d''
      \<and> \<not> is_dir (files desk_refilled) (joinpath ''/d'' METADATA_FILE)
      \<and> Path_of ''/d/a.txt'' \<noteq> joinpath ''/d'' METADATA_FILE"
    by code_simp
  have mv: "safe_move desk_refilled ''/d/a.txt'' ''/d/Documents/a.txt'' False
      = Inr (Some ''/d/Documents/a_1.txt'', x')"
    unfolding x'_def f_def g_def h_def by code_simp
  have held: "node_at (files desk_refilled) ''/d/a.txt'' = Some (File g)"
    unfolding g_def by code_simp
  have kept_before: "node_at (files desk_refilled) ''/d/Documents/a.txt'' = Some (File f)"
    unfolding f_def by code_simp
  from undo_overwrites [OF hist shape moves turn dest src parent, of clock]
  obtain v where last: "[] = ([] :: json list) \<and> is_dir (files desk_refilled) ''/d''
            \<and> \<not> is_dir (files desk_refilled) (joinpath ''/d'' METADATA_FILE)
            \<and> Path_of ''/d/a.txt'' \<noteq> joinpath ''/d'' METADATA_FILE
          \<longrightarrow> (\<exists>w'. run_undo clock ''/d'' desk_refilled = Inr w'
                 \<and> node_at (files w') (Path_of ''/d/a.txt'') = Some (File f))"
    and fwd: "\<forall>x item held target r x' p n.
            node_at (files x) item = Some (File held) \<and> safe_move x item target False = Inr (r, x')
            \<and> p \<noteq> item \<and> node_at (files x) p = Some n
            \<longrightarrow> node_at (files x') p = Some n"
    by blast
  from last side have undone: "\<exists>w'. run_undo clock ''/d'' desk_refilled = Inr w'
        \<and> node_at (files w') (Path_of ''/d/a.txt'') = Some (plain_file 10 ''notes'')"
    by (simp add: f_def plain_file_def)
  have "node_at (files desk_refilled) ''/d/a.txt'' = Some (File g)
      \<and> safe_move desk_refilled ''/d/a.txt'' ''/d/Documents/a.txt'' False
          = Inr (Some ''/d/Documents/a_1.txt'', x')
      \<and> ''/d/Documents/a.txt'' \<noteq> ''/d/a.txt''
      \<and> node_at (files desk_refilled) ''/d/Documents/a.txt'' = Some (File f)"
    using held mv kept_before by simp
  from fwd [rule_format, OF this] have kept: "node_at (files x') ''/d/Documents/a.txt'' = Some (File f)" .
  with mv have forward: "\<exists>x'. safe_move desk_refilled ''/d/a.txt'' ''/d/Documents/a.txt'' False
            = Inr (Some ''/d/Documents/a_1.txt'', x')
        \<and> node_at (files x') ''/d/Documents/a.txt'' = Some (plain_file 10 ''notes'')"
    by (auto simp: f_def plain_file_def)
  have whole: "run_undo clock ''/d'' desk_refilled
       = Inr \<lparr>files = [(''/d'', Dir), (''/d/Documents'', Dir),
                (''/d/a.txt'', plain_file 10 ''notes''),
                (''/d/.organize_history.json'',
                 File \<lparr>st_size = 64, mtime_year = 2024, mtime_month = 3,
                       content = JsonText (JList [earlier_run])\<rparr>)],
              log = [(INFO, ''Restored a.txt -> /d/a.txt''), (INFO, ''Undo complete.'')]\<rparr>"
    by code_simp
  from dest have dest': "node_at (files desk_refilled) (Path_of ''/d/Documents/a.txt'')
      = Some (plain_file 10 ''notes'')"
    by (simp add: f_def plain_file_def)
  from src have src': "node_at (files desk_refilled) (Path_of ''/d/a.txt'') = Some (plain_file 3 ''new'')"
    by (simp add: g_def plain_file_def)
  show ?thesis
    by (intro conjI dest' src' parent undone whole forward)
qed


section \<open>A live run followed by an undo\<close>

text \<open>
  Claim C1 says that a live run followed by an undo puts every moved file back
  at its source path. An undo step hands the two paths to \<open>shutil.move\<close> and
  checks nothing about the source path: when the run has made a directory
  there, the file is moved into it. On a desktop with a regular file named
  \<open>Documents\<close>, listed before \<open>a.txt\<close>, the run moves that file to \<open>Other\<close> and
  then makes the directory \<open>Documents\<close> for \<open>a.txt\<close>; the undo puts the file at
  \<open>/d/Documents/Documents\<close>, and logs that it restored \<open>/d/Documents\<close>.
\<close>

theorem undo_misplaces_named_file:
  "node_at (files desk_named) ''/d/Documents'' = Some (plain_file 4 ''list'')
   \<and> run_organize clock ''/d'' None False False 0 desk_named = Inr desk_named_sorted
   \<and> run_undo clock ''/d'' desk_named_sorted
       = Inr \<lparr>files = [(''/d'', Dir), (''/d/Other'', Dir), (''/d/Documents'', Dir),
                (''/d/.organize_history.json'',
                 File \<lparr>st_size = 64, mtime_year = 2024, mtime_month = 3,
                       content = JsonText (JList [])\<rparr>),
                (''/d/a.txt'', plain_file 10 ''notes''),
                (''/d/Documents/Documents'', plain_file 4 ''list'')],
              log = log desk_named_sorted @
                [(INFO, ''Restored a.txt -> /d/a.txt''),
                 (INFO, ''Restored Documents -> /d/Documents''),
                 (INFO, ''Undo complete.'')]\<rparr>"
  by code_simp

text \<open>
  Claim C1, amended. The paths of the file system and the destination given to
  the run are resolved paths, as \<open>resolve()\<close> returns them. For a live run that
  returns, when the history file of the source directory, if there is one, is
  smaller than the size threshold (so that the run does not move it), and no
  directory stands after the run where a regular file stood before it: the
  undo returns; every path other than the
  history path holds what it held before the run, so every moved file is back
  at its source path, and a path that held nothing holds nothing or a directory
  the run made; and the history file holds the list it stood for before the
  run, without the run's record.
\<close>

theorem run_then_undo:
  assumes run: "run_organize e source dest_parent False by_date min_size_kb w = Inr w1"
    and small: "\<forall>f. node_at (files w) (joinpath source METADATA_FILE) = Some (File f)
                  \<longrightarrow> int (st_size f) < min_size_kb * 1024"
    and nodir: "\<forall>p f. node_at (files w) p = Some (File f) \<longrightarrow> \<not> is_dir (files w1) p"
    and paths: "\<forall>p \<in> fst ` set (files w). resolved p"
    and dest: "resolved (case dest_parent of Some d \<Rightarrow> d | None \<Rightarrow> source)"
  shows "\<exists>w2. run_undo e2 source w1 = Inr w2
     \<and> (\<forall>p f. p \<noteq> joinpath source METADATA_FILE \<and> node_at (files w) p = Some (File f)
            \<longrightarrow> node_at (files w2) p = Some (File f))
     \<and> (\<forall>p. p \<noteq> joinpath source METADATA_FILE
            \<longrightarrow> node_at (files w2) p = node_at (files w) p
                \<or> (node_at (files w) p = None \<and> node_at (files w2) p = Some Dir))
     \<and> (\<exists>g. node_at (files w2) (joinpath source METADATA_FILE) = Some (File g)
            \<and> content g = JsonText (JList (history_before
                  (node_at (files w) (joinpath source METADATA_FILE)))))"
proof -
  let ?hp = "joinpath source METADATA_FILE"
  let ?mr = "\<lambda>m. move_record (fst m) (snd m)"
  let ?dp = "case dest_parent of Some d \<Rightarrow> d | None \<Rightarrow> source"
  from run have dir: "is_dir (files w) source"
    by (auto simp: run_organize_def Let_def split: if_splits)
  with run obtain moves wl
    where loop: "organize_loop ?dp False by_date min_size_kb ([], w) (iterdir (files w) source)
                   = Inr (moves, wl)"
      and app: "append_run e source moves wl = Inr w1"
    by (auto simp: run_organize_def Let_def split: sum.splits)
  note r_dp = dest
  from paths have r_items: "\<forall>item \<in> set (iterdir (files w) source). resolved item"
    by (auto simp: iterdir_def)
  from organize_loop_undo [OF loop iterdir_items small r_items r_dp]
  obtain ps where mvs: "moves = map ?mr ps"
    and were: "\<forall>m \<in> set ps. \<exists>f. node_at (files w) (fst m) = Some (File f)"
    and hist: "node_at (files wl) ?hp = node_at (files w) ?hp \<or> is_dir (files wl) ?hp"
    and undo: "\<forall>u. same_but_dirs ?hp (files wl) (files u)
              \<and> is_dir (files u) source \<and> (\<forall>m \<in> set ps. \<not> is_dir (files u) (fst m))
           \<longrightarrow> (\<exists>u'. restore_all u (map ?mr (rev ps)) = Inr u'
                  \<and> same_but_dirs ?hp (files w) (files u')
                  \<and> (\<forall>p. is_dir (files u') p = is_dir (files u) p))"
    by auto
  note res = append_run_result [OF app]
  from hist res(1) have hist_same: "node_at (files wl) ?hp = node_at (files w) ?hp"
    by simp
  let ?old = "history_before (node_at (files w) ?hp)"
  let ?new = "\<lparr>st_size = dumps_size e (JList (?old @ [history_record e moves])),
                  mtime_year = clock_year e, mtime_month = clock_month e,
                  content = JsonText (JList (?old @ [history_record e moves]))\<rparr>"
  from res(3) hist_same have f1: "files w1 = AList.update ?hp (File ?new) (files wl)"
    by simp
  have hp_ne: "?hp \<noteq> []"
    by (simp add: joinpath_def)
  have w1_nodes: "node_at (files w1) p = (if p = ?hp then Some (File ?new) else node_at (files wl) p)" for p
    using hp_ne by (auto simp: f1 node_at_update node_at_root)
  have rel1: "same_but_dirs ?hp (files wl) (files w1)"
    by (simp add: same_but_dirs_def w1_nodes)
  from res(1) res(2) have src_ne: "source \<noteq> ?hp"
    by auto
  with res(2) have dir1: "is_dir (files w1) source"
    by (simp add: is_dir_def w1_nodes)
  from were nodir have nd1: "\<forall>m \<in> set ps. \<not> is_dir (files w1) (fst m)"
    by blast
  from undo rel1 dir1 nd1 obtain u'
    where all: "restore_all w1 (map ?mr (rev ps)) = Inr u'"
      and rel: "same_but_dirs ?hp (files w) (files u')"
      and dirs: "\<forall>p. is_dir (files u') p = is_dir (files w1) p"
    by blast
  have h1: "node_at (files w1) ?hp = Some (File ?new)"
    by (simp add: w1_nodes)
  have shape: "content ?new = JsonText (JList (?old @ [JObj [(''timestamp'', JStr (utcnow e)),
      (''moves'', JList moves)]]))"
    by (simp add: history_record_def)
  have mv: "map_of [(''timestamp'', JStr (utcnow e)), (''moves'', JList moves)] ''moves''
      = Some (JList moves)"
    by simp
  have "\<not> is_dir (files u') ?hp"
    using dirs h1 by (simp add: is_dir_def)
  moreover have "is_dir (files u') (path_parent ?hp)"
    using dirs dir1 by (simp add: history_parent)
  ultimately have wr: "write_text e2 (files u') ?hp (JList ?old)
      = Inr (AList.update ?hp
           (File \<lparr>st_size = dumps_size e2 (JList ?old), mtime_year = clock_year e2,
                  mtime_month = clock_month e2, content = JsonText (JList ?old)\<rparr>) (files u'))"
    by (rule write_text_file)
  let ?g = "\<lparr>st_size = dumps_size e2 (JList ?old), mtime_year = clock_year e2,
                  mtime_month = clock_month e2, content = JsonText (JList ?old)\<rparr>"
  let ?w2 = "emit INFO ''Undo complete.'' (u'\<lparr>files := AList.update ?hp (File ?g) (files u')\<rparr>)"
  from run_undo_list [OF h1 shape mv, of e2] all wr mvs
  have fin: "run_undo e2 source w1 = Inr ?w2"
    by (simp add: rev_map)
  have w2_nodes: "node_at (files ?w2) p = (if p = ?hp then Some (File ?g) else node_at (files u') p)" for p
    using hp_ne by (auto simp: emit_def node_at_update node_at_root)
  have frame: "\<forall>p. p \<noteq> ?hp
            \<longrightarrow> node_at (files ?w2) p = node_at (files w) p
                \<or> (node_at (files w) p = None \<and> node_at (files ?w2) p = Some Dir)"
    using rel by (simp add: same_but_dirs_def w2_nodes)
  then have files_back: "\<forall>p f. p \<noteq> ?hp \<and> node_at (files w) p = Some (File f)
            \<longrightarrow> node_at (files ?w2) p = Some (File f)"
    by auto
  have led: "\<exists>g. node_at (files ?w2) ?hp = Some (File g) \<and> content g = JsonText (JList ?old)"
    by (rule exI [of _ ?g]) (simp add: w2_nodes)
  show ?thesis
    by (rule exI [of _ ?w2]) (intro conjI fin files_back frame led)
qed

theorem run_then_undo_witness:
  "run_organize clock ''/d'' None False False 0 desk_fresh = Inr desk_fresh_sorted
   \<and> node_at (files desk_fresh) (joinpath ''/d'' METADATA_FILE) = None
   \<and> node_at (files desk_fresh) ''/d/a.txt'' = Some (plain_file 10 ''notes'')
   \<and> \<not> is_dir (files desk_fresh_sorted) ''/d/a.txt''
   \<and> node_at (files desk_fresh_sorted) ''/d/a.txt'' = None
   \<and> (\<exists>w2. run_undo clock ''/d'' desk_fresh_sorted = Inr w2
        \<and> node_at (files w2) ''/d/a.txt'' = Some (plain_file 10 ''notes'')
        \<and> (\<exists>g. node_at (files w2) (joinpath ''/d'' METADATA_FILE) = Some (File g)
                \<and> content g = JsonText (JList [])))"
proof -
  define f where "f = \<lparr>st_size = 10, mtime_year = 2024, mtime_month = 3,
    content = Unparseable ''notes''\<rparr>"
  have run: "run_organize clock ''/d'' None False False 0 desk_fresh = Inr desk_fresh_sorted"
    by code_simp
  have none: "node_at (files desk_fresh) (joinpath ''/d'' METADATA_FILE) = None"
    by code_simp
  then have small: "\<forall>f. node_at (files desk_fresh) (joinpath ''/d'' METADATA_FILE) = Some (File f)
                  \<longrightarrow> int (st_size f) < 0 * 1024"
    by simp
  have a: "node_at (files desk_fresh) ''/d/a.txt'' = Some (File f)"
    unfolding f_def by code_simp
  have only: "p = ''/d/a.txt''" if "node_at (files desk_fresh) p = Some (File g)" for p g
    using that by (auto simp: desk_fresh_def node_at_def plain_file_def split: if_splits)
  have nd: "\<not> is_dir (files desk_fresh_sorted) ''/d/a.txt''"
    by code_simp
  have moved: "node_at (files desk_fresh_sorted) ''/d/a.txt'' = None"
    by code_simp
  from only nd have nodir: "\<forall>p g. node_at (files desk_fresh) p = Some (File g)
      \<longrightarrow> \<not> is_dir (files desk_fresh_sorted) p"
    by blast
  have hp: "''/d/a.txt'' \<noteq> joinpath ''/d'' METADATA_FILE"
    by (simp add: joinpath_def METADATA_FILE_def)
  have paths: "\<forall>p \<in> fst ` set (files desk_fresh). resolved p"
    by (simp add: desk_fresh_def resolved_def components_def rooted_def)
  have dest: "resolved (case None of Some d \<Rightarrow> d | None \<Rightarrow> ''/d'')"
    by code_simp
  from run_then_undo [OF run small nodir paths dest, of clock]
  obtain w2 where undone: "run_undo clock ''/d'' desk_fresh_sorted = Inr w2"
    and files_back: "\<forall>p g. p \<noteq> joinpath ''/d'' METADATA_FILE
          \<and> node_at (files desk_fresh) p = Some (File g)
            \<longrightarrow> node_at (files w2) p = Some (File g)"
    and led: "\<exists>g. node_at (files w2) (joinpath ''/d'' METADATA_FILE) = Some (File g)
            \<and> content g = JsonText (JList (history_before
                  (node_at (files desk_fresh) (joinpath ''/d'' METADATA_FILE))))"
    by blast
  from files_back hp a have "node_at (files w2) ''/d/a.txt'' = Some (File f)"
    by blast
  moreover from led none have "\<exists>g. node_at (files w2) (joinpath ''/d'' METADATA_FILE) = Some (File g)
                \<and> content g = JsonText (JList [])"
    by (simp add: history_before_def)
  ultimately have "\<exists>w2. run_undo clock ''/d'' desk_fresh_sorted = Inr w2
        \<and> node_at (files w2) ''/d/a.txt'' = Some (plain_file 10 ''notes'')
        \<and> (\<exists>g. node_at (files w2) (joinpath ''/d'' METADATA_FILE) = Some (File g)
                \<and> content g = JsonText (JList []))"
    using undone by (auto simp: f_def plain_file_def)
  with run none a nd moved show ?thesis
    by (simp add: f_def plain_file_def)
qed

end
